theory Spec2Isabelle
  imports Complex_Main "HOL-Library.AList"
begin

section \<open>Stream-job orchestration of the hazard-detection service (main.py)\<close>

subsection \<open>Numbers\<close>

text \<open>
  Timestamps and latencies are Python floats (\<^verbatim>\<open>time.time()\<close>); they are read here as
  the real numbers they denote. Python's \<^verbatim>\<open>int(x)\<close> on a float truncates towards zero.
\<close>

definition py_int :: "real \<Rightarrow> int" where
  "py_int x = (if 0 \<le> x then \<lfloor>x\<rfloor> else \<lceil>x\<rceil>)"

text \<open>
  \<^verbatim>\<open>new_interval = int(processing_time) + 5\<close> (main.py, end of the frame loop).
\<close>

definition new_interval :: "real \<Rightarrow> int" where
  "new_interval processing_time = py_int processing_time + 5"

text \<open>
  Modelled from the spec: \<^verbatim>\<open>StreamCapture.update_capture_interval\<close> lives in
  src/stream_capture.py, which is not among the sources; its test
  (\<^verbatim>\<open>test_update_capture_interval\<close>) and the specification say that it stores the
  interval it is given as the capture interval of the session.
\<close>

record stream_capture =
  stream_url :: string
  capture_interval :: int

definition update_capture_interval :: "int \<Rightarrow> stream_capture \<Rightarrow> stream_capture" where
  "update_capture_interval n sc = sc\<lparr>capture_interval := n\<rparr>"

subsection \<open>Python values and their text forms\<close>

text \<open>
  The values a configuration record holds, by the declared types of \<^verbatim>\<open>AppConfig\<close>:
  \<^verbatim>\<open>None\<close>, a bool, a str, or a \<^verbatim>\<open>dict[str, str]\<close>. A Python dict keeps its
  insertion order, which both \<^verbatim>\<open>str()\<close> and \<^verbatim>\<open>.items()\<close> follow, so a dict is an
  association list. A character is a code point below 256.
\<close>

datatype pyval = PNone | PBool bool | PStr string | PDict "(string \<times> string) list"

abbreviation squote :: char where "squote \<equiv> CHR 0x27"
abbreviation dquote :: char where "dquote \<equiv> CHR 0x22"
abbreviation backslash :: char where "backslash \<equiv> CHR 0x5C"

definition hexdigit :: "nat \<Rightarrow> char" where
  "hexdigit n = (if n < 10 then char_of (48 + n) else char_of (87 + n))"

text \<open>\<^verbatim>\<open>str.isprintable\<close> on the code points below 256.\<close>

definition printable :: "char \<Rightarrow> bool" where
  "printable c = (let n = (of_char c :: nat) in (32 \<le> n \<and> n < 127) \<or> (161 \<le> n \<and> n \<noteq> 173))"

text \<open>
  \<^verbatim>\<open>repr\<close> of a str: single quotes, unless the text has a single quote and no double
  quote; the quote and the backslash are escaped with a backslash, tab, newline and
  carriage return by their letters, every other unprintable character as \<^verbatim>\<open>\xNN\<close>.
\<close>

definition repr_quote :: "string \<Rightarrow> char" where
  "repr_quote s = (if squote \<in> set s \<and> dquote \<notin> set s then dquote else squote)"

definition repr_char :: "char \<Rightarrow> char \<Rightarrow> string" where
  "repr_char q c =
     (if c = q \<or> c = backslash then [backslash, c]
      else if c = CHR 0x09 then [backslash, CHR ''t'']
      else if c = CHR 0x0A then [backslash, CHR ''n'']
      else if c = CHR 0x0D then [backslash, CHR ''r'']
      else if \<not> printable c then
        [backslash, CHR ''x'', hexdigit (of_char c div 16), hexdigit (of_char c mod 16)]
      else [c])"

definition repr_str :: "string \<Rightarrow> string" where
  "repr_str s = (let q = repr_quote s in q # concat (map (repr_char q) s) @ [q])"

text \<open>\<^verbatim>\<open>sep.join(xs)\<close>.\<close>

fun join :: "string \<Rightarrow> string list \<Rightarrow> string" where
  "join sep [] = []"
| "join sep [x] = x"
| "join sep (x # y # ys) = x @ sep @ join sep (y # ys)"

definition repr_item :: "string \<times> string \<Rightarrow> string" where
  "repr_item kv = repr_str (fst kv) @ '': '' @ repr_str (snd kv)"

definition repr_dict :: "(string \<times> string) list \<Rightarrow> string" where
  "repr_dict d = ''{'' @ join '', '' (map repr_item d) @ ''}''"

definition repr_list :: "string list \<Rightarrow> string" where
  "repr_list xs = ''['' @ join '', '' (map repr_str xs) @ '']''"

fun py_repr :: "pyval \<Rightarrow> string" where
  "py_repr PNone = ''None''"
| "py_repr (PBool b) = (if b then ''True'' else ''False'')"
| "py_repr (PStr s) = repr_str s"
| "py_repr (PDict d) = repr_dict d"

text \<open>\<^verbatim>\<open>str(v)\<close>, which an f-string applies: a str stands for itself.\<close>

fun py_str :: "pyval \<Rightarrow> string" where
  "py_str (PStr s) = s"
| "py_str v = py_repr v"

text \<open>Truthiness, as \<^verbatim>\<open>if v\<close> and \<^verbatim>\<open>not v\<close> read it.\<close>

fun truthy :: "pyval \<Rightarrow> bool" where
  "truthy PNone = False"
| "truthy (PBool b) = b"
| "truthy (PStr s) = (s \<noteq> [])"
| "truthy (PDict d) = (d \<noteq> [])"

text \<open>\<^verbatim>\<open>sub in s\<close> on strings.\<close>

fun contains :: "string \<Rightarrow> string \<Rightarrow> bool" where
  "contains sub [] = (sub = [])"
| "contains sub (c # cs) = (take (length sub) (c # cs) = sub \<or> contains sub cs)"

subsection \<open>Errors, effects and the external collaborators\<close>

datatype error =
    KeyError string
  | TypeError
  | AttributeError
  | NameError string
  | ExternalFailure

type_synonym config = "(string \<times> pyval) list"

text \<open>
  What the program does to the outside, in order. \<open>Suppress\<close> marks the cooldown
  \<^verbatim>\<open>continue\<close> of the notification loop, which has no outside effect of its own.
\<close>

datatype effect =
    StopProcess nat
  | StartProcess nat config
  | RedisDelete string
  | RedisAdd string
  | SendNotification string string int
  | Suppress string
  | Draw string
  | UpdateInterval int
  | ReleaseResources
  | Log string

text \<open>
  The collaborators that are not in main.py are parameters: the translator, the
  notifier (the status it answers for a message and a token), \<^verbatim>\<open>Utils.is_expired\<close> at
  the time of the pass, and the platform flag \<^verbatim>\<open>is_windows\<close>.
\<close>

record env =
  translate_warning :: "string list \<Rightarrow> string \<Rightarrow> string list"
  send_notification :: "string \<Rightarrow> string \<Rightarrow> int"
  is_expired :: "pyval \<Rightarrow> bool"
  is_windows :: bool

subsection \<open>The notification loop of a frame\<close>

record frame =
  timestamp :: real
  detection_time :: string
  current_hour :: int
  warnings :: "string list"
  start_time :: real
  end_time :: real
  store_error :: "string option"

text \<open>
  \<^verbatim>\<open>next((w for w in warnings if 'controlled area' in w), None)\<close>, then the list of it
  when it is truthy.
\<close>

fun controlled_zone_warning_str :: "string list \<Rightarrow> string option" where
  "controlled_zone_warning_str [] = None"
| "controlled_zone_warning_str (w # ws) =
     (if contains ''controlled area'' w then Some w else controlled_zone_warning_str ws)"

definition controlled_zone_warning :: "string list \<Rightarrow> string list" where
  "controlled_zone_warning ws =
     (case controlled_zone_warning_str ws of
        None \<Rightarrow> []
      | Some w \<Rightarrow> if w \<noteq> [] then [w] else [])"

definition working_hours :: "int \<Rightarrow> bool" where
  "working_hours h = (7 \<le> h \<and> h < 18)"

definition message_header :: "pyval \<Rightarrow> string \<Rightarrow> string" where
  "message_header stream_name dt = py_str stream_name @ [CHR 0x0A] @ ''['' @ dt @ '']'' @ [CHR 0x0A]"

definition compose_message :: "env \<Rightarrow> pyval \<Rightarrow> frame \<Rightarrow> string \<Rightarrow> string option" where
  "compose_message E stream_name f language =
     (let translated_warnings = translate_warning E (warnings f) language
      in if controlled_zone_warning (warnings f) \<noteq> [] \<and> \<not> working_hours (current_hour f) then
           Some (message_header stream_name (detection_time f)
                 @ repr_list (translate_warning E (controlled_zone_warning (warnings f)) language))
         else if translated_warnings \<noteq> [] \<and> working_hours (current_hour f) then
           Some (message_header stream_name (detection_time f) @ join [CHR 0x0A] translated_warnings)
         else None)"

definition in_cooldown :: "real \<Rightarrow> int \<Rightarrow> bool" where
  "in_cooldown ts last_sent = (ts - real_of_int last_sent < 300)"

record notify_state =
  last_notification_time :: int
  last_line_token :: "string option"
  last_language :: "string option"
  frame_with_detections :: "string option"

text \<open>The body of \<^verbatim>\<open>for line_token, language in notifications.items()\<close>.\<close>

definition notify_channel ::
  "env \<Rightarrow> pyval \<Rightarrow> frame \<Rightarrow> string \<times> string \<Rightarrow> notify_state \<Rightarrow> notify_state \<times> effect list" where
  "notify_channel E stream_name f c st =
     (let line_token = fst c; language = snd c in
      if in_cooldown (timestamp f) (last_notification_time st) then
        (st\<lparr>last_line_token := Some line_token, last_language := Some language\<rparr>,
         [Suppress line_token])
      else
        (let st1 = st\<lparr>frame_with_detections := Some language\<rparr>;
             message = compose_message E stream_name f language
         in if message = None \<or> message = Some [] then
              (st1, [Draw language, Log ''No warnings or outside notification time.''])
            else
              (let notification_status = send_notification E (the message) line_token
               in (if notification_status = 200
                   then st1\<lparr>last_notification_time := py_int (timestamp f)\<rparr> else st1,
                   [Draw language,
                    SendNotification line_token (the message) notification_status,
                    Log ((if notification_status = 200 then ''Notification sent successfully: ''
                          else ''Failed to send notification: '') @ the message),
                    Log (''Notification sent to '' @ line_token @ '' in '' @ language @ ''.'')]))))"

fun notify_channels ::
  "env \<Rightarrow> pyval \<Rightarrow> frame \<Rightarrow> (string \<times> string) list \<Rightarrow> notify_state \<Rightarrow> notify_state \<times> effect list" where
  "notify_channels E stream_name f [] st = (st, [])"
| "notify_channels E stream_name f (c # rest) st =
     (let (st1, es1) = notify_channel E stream_name f c st;
          (st2, es2) = notify_channels E stream_name f rest st1
      in (st2, es1 @ es2))"

text \<open>\<^verbatim>\<open>last_notification_time = int(time.time()) - 300\<close> when the worker starts.\<close>

definition initial_last_notification_time :: "real \<Rightarrow> int" where
  "initial_last_notification_time now = py_int now - 300"

subsection \<open>The stream worker\<close>

text \<open>\<^verbatim>\<open>d.get(k, default)\<close> and the key \<^verbatim>\<open>f"{site}_{stream_name}"\<close> of the frame buffer.\<close>

definition dict_get :: "config \<Rightarrow> string \<Rightarrow> pyval \<Rightarrow> pyval" where
  "dict_get cfg k d = (case map_of cfg k of None \<Rightarrow> d | Some v \<Rightarrow> v)"

definition buffer_key :: "pyval \<Rightarrow> pyval \<Rightarrow> string" where
  "buffer_key site stream_name = py_str site @ ''_'' @ py_str stream_name"

text \<open>
  One iteration of \<^verbatim>\<open>async for frame, timestamp in streaming_capture.execute_capture()\<close>:
  the starting state of the notification loop is built anew for each frame, only the
  time of the last notification is carried over. Detection, drawing and encoding are
  opaque; of the three closing log lines the formatted latency is not spelled out.
\<close>

definition process_frame ::
  "env \<Rightarrow> pyval \<Rightarrow> pyval \<Rightarrow> pyval \<Rightarrow> frame \<Rightarrow> int \<times> stream_capture
     \<Rightarrow> (int \<times> stream_capture) \<times> effect list \<times> error option" where
  "process_frame E site stream_name notifications f w =
     (let st0 = \<lparr>last_notification_time = fst w, last_line_token = None,
                  last_language = None, frame_with_detections = None\<rparr>;
          notified =
            (if \<not> truthy notifications then Inr (st0, [Log ''No notifications provided.''])
             else case notifications of
                    PDict d \<Rightarrow> Inr (notify_channels E stream_name f d st0)
                  | _ \<Rightarrow> Inl AttributeError)
      in case notified of
           Inl e \<Rightarrow> (w, [], Some e)
         | Inr (st, es) \<Rightarrow>
             (let draw = (if frame_with_detections st = None
                          then [Draw (case last_language st of
                                        None \<Rightarrow> ''en''
                                      | Some l \<Rightarrow> if l = [] then ''en'' else l)]
                          else []);
                  key = buffer_key site stream_name;
                  store = (if is_windows E then []
                           else case store_error f of
                                  None \<Rightarrow> [RedisAdd key]
                                | Some msg \<Rightarrow> [Log (''Failed to store frame in Redis: '' @ msg)]);
                  processing_time = end_time f - start_time f;
                  interval = new_interval processing_time
              in ((last_notification_time st, update_capture_interval interval (snd w)),
                  es @ draw @ store
                    @ [UpdateInterval interval,
                       Log (py_str site @ '' - '' @ py_str stream_name),
                       Log (''Detection time: '' @ detection_time f),
                       Log ''Processing time''],
                  None)))"

fun frame_loop ::
  "env \<Rightarrow> pyval \<Rightarrow> pyval \<Rightarrow> pyval \<Rightarrow> frame list \<Rightarrow> int \<times> stream_capture
     \<Rightarrow> (int \<times> stream_capture) \<times> effect list \<times> error option" where
  "frame_loop E site stream_name notifications [] w = (w, [], None)"
| "frame_loop E site stream_name notifications (f # fs) w =
     (case process_frame E site stream_name notifications f w of
        (w1, es1, Some e) \<Rightarrow> (w1, es1, Some e)
      | (w1, es1, None) \<Rightarrow>
          (case frame_loop E site stream_name notifications fs w1 of
             (w2, es2, r) \<Rightarrow> (w2, es1 @ es2, r)))"

text \<open>
  \<^verbatim>\<open>process_single_stream\<close>, run on the frames the capture yields before it ends:
  \<open>capture_end\<close> is what the generator does after them, stop (\<open>None\<close>) or raise.
  \<open>now\<close> is \<^verbatim>\<open>time.time()\<close> when the worker starts.
\<close>

definition process_single_stream ::
  "env \<Rightarrow> real \<Rightarrow> pyval \<Rightarrow> pyval \<Rightarrow> pyval \<Rightarrow> pyval \<Rightarrow> frame list \<Rightarrow> error option
     \<Rightarrow> effect list \<times> error option" where
  "process_single_stream E now video_url site stream_name notifications frames capture_end =
     (let streaming_capture = \<lparr>stream_url = py_str video_url, capture_interval = 15\<rparr>;
          last_notification_time = initial_last_notification_time now
      in case frame_loop E site stream_name notifications frames
                (last_notification_time, streaming_capture) of
           (w, es, Some e) \<Rightarrow> (es, Some e)
         | (w, es, None) \<Rightarrow>
             (case capture_end of
                Some e \<Rightarrow> (es, Some e)
              | None \<Rightarrow> (es @ [ReleaseResources], None)))"

text \<open>
  The legacy pair \<^verbatim>\<open>line_token\<close>, \<^verbatim>\<open>language\<close> becomes \<^verbatim>\<open>{line_token: language}\<close>. The
  declared types are \<^verbatim>\<open>str | None\<close>; a dict as the key is unhashable, and the other values
  outside the declared types have no place in a \<^verbatim>\<open>dict[str, str]\<close> and are refused here.
\<close>

definition legacy_notifications :: "pyval \<Rightarrow> pyval \<Rightarrow> error + pyval" where
  "legacy_notifications line_token language =
     (if line_token \<noteq> PNone \<and> language \<noteq> PNone then
        (case (line_token, language) of
           (PStr t, PStr l) \<Rightarrow> Inr (PDict [(t, l)])
         | _ \<Rightarrow> Inl TypeError)
      else Inr PNone)"

definition normalise_notifications :: "config \<Rightarrow> error + pyval" where
  "normalise_notifications cfg =
     (if map_of cfg ''notifications'' \<noteq> None \<and> map_of cfg ''notifications'' \<noteq> Some PNone then
        Inr (the (map_of cfg ''notifications''))
      else if map_of cfg ''line_token'' \<noteq> None \<and> map_of cfg ''language'' \<noteq> None then
        legacy_notifications (dict_get cfg ''line_token'' PNone) (dict_get cfg ''language'' PNone)
      else Inr PNone)"

text \<open>
  \<^verbatim>\<open>process_streams\<close>: the body of a worker process. The \<^verbatim>\<open>finally\<close> clause runs when
  the body returns and when it raises.
\<close>

definition process_streams ::
  "env \<Rightarrow> real \<Rightarrow> config \<Rightarrow> frame list \<Rightarrow> error option \<Rightarrow> effect list \<times> error option" where
  "process_streams E now cfg frames capture_end =
     (let body =
            (case normalise_notifications cfg of
               Inl e \<Rightarrow> ([], Some e)
             | Inr notifications \<Rightarrow>
                 process_single_stream E now
                   (dict_get cfg ''video_url'' (PStr []))
                   (dict_get cfg ''site'' PNone)
                   (dict_get cfg ''stream_name'' (PStr ''prediction_visual''))
                   notifications frames capture_end);
          key = buffer_key (dict_get cfg ''site'' PNone)
                  (dict_get cfg ''stream_name'' (PStr ''prediction_visual''));
          finally = (if \<not> is_windows E
                     then [RedisDelete key, Log (''Deleted Redis key: '' @ key)] else [])
      in (fst body @ finally, snd body))"

subsection \<open>The reconciler\<close>

record worker =
  process :: nat
  config :: config

record app_state =
  running_processes :: "(pyval \<times> worker) list"
  current_config_hashes :: "(pyval \<times> string) list"
  spawned :: nat

text \<open>
  \<^verbatim>\<open>compute_config_hash\<close>: \<^verbatim>\<open>str\<close> of the dict of the six relevant entries; a missing
  key raises at the first subscript that lacks it.
\<close>

definition compute_config_hash :: "config \<Rightarrow> error + string" where
  "compute_config_hash cfg =
     (case map_of cfg ''video_url'' of
        None \<Rightarrow> Inl (KeyError ''video_url'')
      | Some video_url \<Rightarrow>
     (case map_of cfg ''model_key'' of
        None \<Rightarrow> Inl (KeyError ''model_key'')
      | Some model_key \<Rightarrow>
     (case map_of cfg ''site'' of
        None \<Rightarrow> Inl (KeyError ''site'')
      | Some site \<Rightarrow>
     (let stream_name = dict_get cfg ''stream_name'' (PStr ''prediction_visual'') in
     (case map_of cfg ''notifications'' of
        None \<Rightarrow> Inl (KeyError ''notifications'')
      | Some notifications \<Rightarrow>
     (case map_of cfg ''detect_with_server'' of
        None \<Rightarrow> Inl (KeyError ''detect_with_server'')
      | Some detect_with_server \<Rightarrow>
          Inr (''{'' @ repr_str ''video_url'' @ '': '' @ py_repr video_url
               @ '', '' @ repr_str ''model_key'' @ '': '' @ py_repr model_key
               @ '', '' @ repr_str ''site'' @ '': '' @ py_repr site
               @ '', '' @ repr_str ''stream_name'' @ '': '' @ py_repr stream_name
               @ '', '' @ repr_str ''notifications'' @ '': '' @ py_repr notifications
               @ '', '' @ repr_str ''detect_with_server'' @ '': '' @ py_repr detect_with_server
               @ ''}'')))))))"

text \<open>A dict is unhashable, so it cannot be the key of \<^verbatim>\<open>current_configs\<close>.\<close>

fun unhashable :: "pyval \<Rightarrow> bool" where
  "unhashable (PDict d) = True"
| "unhashable v = False"

text \<open>
  \<^verbatim>\<open>{config['video_url']: config for config in configurations}\<close>: a later record
  replaces an earlier one with the same URL, in the earlier one's place.
\<close>

fun current_configs_of :: "config list \<Rightarrow> (pyval \<times> config) list \<Rightarrow> error + (pyval \<times> config) list" where
  "current_configs_of [] acc = Inr acc"
| "current_configs_of (cfg # cfgs) acc =
     (case map_of cfg ''video_url'' of
        None \<Rightarrow> Inl (KeyError ''video_url'')
      | Some video_url \<Rightarrow>
          if unhashable video_url then Inl TypeError
          else current_configs_of cfgs (AList.update video_url cfg acc))"

text \<open>The set \<^verbatim>\<open>current_keys\<close>, as the list of its elements; only membership is asked.\<close>

fun current_keys_of :: "config list \<Rightarrow> error + string list" where
  "current_keys_of [] = Inr []"
| "current_keys_of (cfg # cfgs) =
     (case map_of cfg ''site'' of
        None \<Rightarrow> Inl (KeyError ''site'')
      | Some site \<Rightarrow>
          (case current_keys_of cfgs of
             Inl e \<Rightarrow> Inl e
           | Inr keys \<Rightarrow>
               Inr (buffer_key site (dict_get cfg ''stream_name'' (PStr ''prediction_visual'')) # keys)))"

text \<open>\<^verbatim>\<open>start_process\<close>: a new process, named by the count of those spawned so far.\<close>

definition start_process :: "config \<Rightarrow> app_state \<Rightarrow> nat \<times> app_state \<times> effect list" where
  "start_process cfg s = (spawned s, s\<lparr>spawned := Suc (spawned s)\<rparr>, [StartProcess (spawned s) cfg])"

text \<open>
  \<^verbatim>\<open>await redis_manager.delete(key_to_delete)\<close> with its log line, under
  \<^verbatim>\<open>if key_to_delete not in current_keys\<close>. The name \<^verbatim>\<open>redis_manager\<close> is bound only when
  the platform is not Windows.
\<close>

definition delete_old_key :: "env \<Rightarrow> string list \<Rightarrow> string \<Rightarrow> effect list \<times> error option" where
  "delete_old_key E current_keys key_to_delete =
     (if key_to_delete \<notin> set current_keys then
        (if is_windows E then ([], Some (NameError ''redis_manager''))
         else ([RedisDelete key_to_delete, Log (''Deleted Redis key: '' @ key_to_delete)], None))
      else ([], None))"

text \<open>
  The body of \<^verbatim>\<open>for video_url in list(self.running_processes.keys())\<close>. An exception
  leaves the state as it was changed up to the raise.
\<close>

definition stop_or_restart ::
  "env \<Rightarrow> (pyval \<times> config) list \<Rightarrow> string list \<Rightarrow> pyval \<Rightarrow> app_state
     \<Rightarrow> app_state \<times> effect list \<times> error option" where
  "stop_or_restart E current_configs current_keys video_url s =
     (case map_of (running_processes s) video_url of
        None \<Rightarrow> (s, [], Some (KeyError (py_repr video_url)))
      | Some config_data \<Rightarrow>
     (let cfg = map_of current_configs video_url in
     (case map_of (config config_data) ''site'' of
        None \<Rightarrow> (s, [], Some (KeyError ''site''))
      | Some site \<Rightarrow>
     (let stream_name = dict_get (config config_data) ''stream_name'' (PStr ''prediction_visual'');
          key_to_delete = buffer_key site stream_name
      in if cfg = None \<or> cfg = Some [] \<or> is_expired E (dict_get (the cfg) ''expire_date'' PNone) then
           (let es1 = [Log (''Stop workflow: '' @ py_str video_url),
                       StopProcess (process config_data)];
                s1 = s\<lparr>running_processes := AList.delete video_url (running_processes s)\<rparr>
            in if map_of (current_config_hashes s1) video_url = None then
                 (s1, es1, Some (KeyError (py_repr video_url)))
               else
                 (let s2 = s1\<lparr>current_config_hashes :=
                                 AList.delete video_url (current_config_hashes s1)\<rparr>
                  in (s2, es1 @ fst (delete_old_key E current_keys key_to_delete),
                      snd (delete_old_key E current_keys key_to_delete))))
         else
           (case compute_config_hash (the cfg) of
              Inl e \<Rightarrow> (s, [], Some e)
            | Inr h \<Rightarrow>
                if Some h \<noteq> map_of (current_config_hashes s) video_url then
                  (let es1 = [Log (''Config changed for '' @ py_str video_url
                                   @ ''. Restarting workflow.''),
                              StopProcess (process config_data)];
                       del = delete_old_key E current_keys key_to_delete
                   in if snd del \<noteq> None then (s, es1 @ fst del, snd del)
                      else
                        (let (p, s1, es2) = start_process (the cfg) s;
                             s2 = s1\<lparr>running_processes :=
                                       AList.update video_url \<lparr>process = p, config = the cfg\<rparr>
                                         (running_processes s1)\<rparr>;
                             s3 = s2\<lparr>current_config_hashes :=
                                       AList.update video_url h (current_config_hashes s2)\<rparr>
                         in (s3, es1 @ fst del @ es2, None)))
                else (s, [], None))))))"

fun stop_loop ::
  "env \<Rightarrow> (pyval \<times> config) list \<Rightarrow> string list \<Rightarrow> pyval list \<Rightarrow> app_state
     \<Rightarrow> app_state \<times> effect list \<times> error option" where
  "stop_loop E current_configs current_keys [] s = (s, [], None)"
| "stop_loop E current_configs current_keys (video_url # urls) s =
     (case stop_or_restart E current_configs current_keys video_url s of
        (s1, es1, Some e) \<Rightarrow> (s1, es1, Some e)
      | (s1, es1, None) \<Rightarrow>
          (case stop_loop E current_configs current_keys urls s1 of
             (s2, es2, r) \<Rightarrow> (s2, es1 @ es2, r)))"

text \<open>The body of \<^verbatim>\<open>for video_url, config in current_configs.items()\<close>.\<close>

definition start_new ::
  "env \<Rightarrow> pyval \<times> config \<Rightarrow> app_state \<Rightarrow> app_state \<times> effect list \<times> error option" where
  "start_new E item s =
     (let video_url = fst item; cfg = snd item
      in if is_expired E (dict_get cfg ''expire_date'' PNone) then
           (s, [Log (''Skip expired configuration: '' @ py_str video_url)], None)
         else if map_of (running_processes s) video_url = None then
           (let es1 = [Log (''Launch new workflow: '' @ py_str video_url)];
                (p, s1, es2) = start_process cfg s;
                s2 = s1\<lparr>running_processes :=
                          AList.update video_url \<lparr>process = p, config = cfg\<rparr>
                            (running_processes s1)\<rparr>
            in case compute_config_hash cfg of
                 Inl e \<Rightarrow> (s2, es1 @ es2, Some e)
               | Inr h \<Rightarrow>
                   (s2\<lparr>current_config_hashes :=
                         AList.update video_url h (current_config_hashes s2)\<rparr>,
                    es1 @ es2, None))
         else (s, [], None))"

fun start_loop ::
  "env \<Rightarrow> (pyval \<times> config) list \<Rightarrow> app_state \<Rightarrow> app_state \<times> effect list \<times> error option" where
  "start_loop E [] s = (s, [], None)"
| "start_loop E (item # items) s =
     (case start_new E item s of
        (s1, es1, Some e) \<Rightarrow> (s1, es1, Some e)
      | (s1, es1, None) \<Rightarrow>
          (case start_loop E items s1 of
             (s2, es2, r) \<Rightarrow> (s2, es1 @ es2, r)))"

text \<open>
  \<^verbatim>\<open>reload_configurations\<close> on the records \<^verbatim>\<open>yaml.safe_load\<close> returned: one
  reconciliation pass, holding the lock throughout.
\<close>

definition reload_configurations ::
  "env \<Rightarrow> config list \<Rightarrow> app_state \<Rightarrow> app_state \<times> effect list \<times> error option" where
  "reload_configurations E configurations s =
     (case current_configs_of configurations [] of
        Inl e \<Rightarrow> (s, [], Some e)
      | Inr current_configs \<Rightarrow>
     (case current_keys_of configurations of
        Inl e \<Rightarrow> (s, [], Some e)
      | Inr current_keys \<Rightarrow>
     (case stop_loop E current_configs current_keys (map fst (running_processes s)) s of
        (s1, es1, Some e) \<Rightarrow> (s1, es1, Some e)
      | (s1, es1, None) \<Rightarrow>
          (case start_loop E current_configs s1 of
             (s2, es2, r) \<Rightarrow> (s2, es1 @ es2, r)))))"

subsection \<open>Quality selection of the fallback capture\<close>

text \<open>
  Modelled from the spec: \<^verbatim>\<open>StreamCapture.select_quality_based_on_speed\<close> lives in
  src/stream_capture.py, which is not among the sources. By the specification the
  download capacity (in Mbps) sets a cap on the quality ladder
  best > 1080p > 720p > 480p > 360p > 240p: no cap from 10 up, 720p from 5 up, 480p
  below; the highest advertised variant at or below the cap is selected and its URL
  returned, or nothing when there is none.
\<close>

definition quality_ladder :: "string list" where
  "quality_ladder = [''best'', ''1080p'', ''720p'', ''480p'', ''360p'', ''240p'']"

definition quality_cap :: "real \<Rightarrow> string" where
  "quality_cap download_speed =
     (if 10 \<le> download_speed then ''best''
      else if 5 \<le> download_speed then ''720p''
      else ''480p'')"

definition preferred_qualities :: "real \<Rightarrow> string list" where
  "preferred_qualities download_speed =
     dropWhile (\<lambda>q. q \<noteq> quality_cap download_speed) quality_ladder"

fun first_available :: "string list \<Rightarrow> (string \<times> string) list \<Rightarrow> string option" where
  "first_available [] streams = None"
| "first_available (quality # rest) streams =
     (case map_of streams quality of
        Some url \<Rightarrow> Some url
      | None \<Rightarrow> first_available rest streams)"

definition select_quality_based_on_speed :: "real \<Rightarrow> (string \<times> string) list \<Rightarrow> string option" where
  "select_quality_based_on_speed download_speed streams =
     first_available (preferred_qualities download_speed) streams"

subsection \<open>Trace observers and sample inputs\<close>

definition is_send_to :: "string \<Rightarrow> effect \<Rightarrow> bool" where
  "is_send_to t e = (case e of SendNotification t' m s \<Rightarrow> t' = t | _ \<Rightarrow> False)"

definition is_delete :: "effect \<Rightarrow> bool" where
  "is_delete e = (case e of RedisDelete k \<Rightarrow> True | _ \<Rightarrow> False)"

fun sent_messages :: "effect list \<Rightarrow> string list" where
  "sent_messages [] = []"
| "sent_messages (SendNotification t m s # es) = m # sent_messages es"
| "sent_messages (e # es) = sent_messages es"

text \<open>
  A sample environment: a translator that leaves the warnings as they are, a notifier
  that fails for one token, an expiry test true of one date, not on Windows.
\<close>

definition demo_env :: env where
  "demo_env = \<lparr>translate_warning = (\<lambda>ws l. ws),
               send_notification = (\<lambda>m t. if t = ''bad-token'' then 400 else 200),
               is_expired = (\<lambda>v. v = PStr ''2020-01-01''),
               is_windows = False\<rparr>"

definition night_frame :: frame where
  "night_frame = \<lparr>timestamp = 1000.5, detection_time = ''2024-05-01 03:00:00'',
                  current_hour = 3,
                  warnings = [''Warning: Someone is not wearing a hardhat!'',
                              ''Warning: 2 people have entered the controlled area!''],
                  start_time = 0, end_time = 2.7, store_error = None\<rparr>"

definition fresh_notify_state :: "int \<Rightarrow> notify_state" where
  "fresh_notify_state t = \<lparr>last_notification_time = t, last_line_token = None,
                            last_language = None, frame_with_detections = None\<rparr>"

definition demo_config :: config where
  "demo_config = [(''video_url'', PStr ''rtsp://a''), (''model_key'', PStr ''yolo11n''),
                  (''site'', PStr ''S''), (''stream_name'', PStr ''X''),
                  (''notifications'', PDict [(''a'', ''en'')]),
                  (''detect_with_server'', PBool True)]"

definition bad_config :: config where
  "bad_config = [(''video_url'', PStr ''rtsp://bad''), (''model_key'', PStr ''yolo11n''),
                 (''notifications'', PNone), (''detect_with_server'', PBool False)]"

definition empty_state :: app_state where
  "empty_state = \<lparr>running_processes = [], current_config_hashes = [], spawned = 0\<rparr>"




definition shared_key_config :: config where
  "shared_key_config = [(''video_url'', PStr ''rtsp://b''), (''model_key'', PStr ''yolo11n''),
                        (''site'', PStr ''S''), (''stream_name'', PStr ''X''),
                        (''notifications'', PNone), (''detect_with_server'', PBool False)]"

definition one_worker_state :: app_state where
  "one_worker_state =
     \<lparr>running_processes = [(PStr ''rtsp://a'', \<lparr>process = 0, config = demo_config\<rparr>)],
      current_config_hashes = [(PStr ''rtsp://a'', ''recorded'')],
      spawned = 1\<rparr>"

definition pass_result :: "app_state \<times> effect list \<times> error option \<Rightarrow> app_state \<times> error option" where
  "pass_result x = (fst x, snd (snd x))"

definition expired_config :: config where
  "expired_config = [(''video_url'', PStr ''rtsp://old''), (''model_key'', PStr ''yolo11n''),
                     (''site'', PStr ''S''), (''stream_name'', PStr ''X''),
                     (''notifications'', PNone), (''detect_with_server'', PBool False),
                     (''expire_date'', PStr ''2020-01-01'')]"

text \<open>
  The text of the entries of a dict between its braces, unfolded entry by entry (it is
  what \<open>join\<close> gives), and the six entries of a configuration that the fingerprint is
  said to depend on.
\<close>

fun items_text :: "(string \<times> string) list \<Rightarrow> string" where
  "items_text [] = []"
| "items_text (kv # kvs) = repr_item kv @ (if kvs = [] then [] else '', '' @ items_text kvs)"

definition fingerprint_fields ::
  "config \<Rightarrow> pyval option \<times> pyval option \<times> pyval option \<times> pyval \<times> pyval option \<times> pyval option" where
  "fingerprint_fields cfg =
     (map_of cfg ''video_url'', map_of cfg ''model_key'', map_of cfg ''site'',
      dict_get cfg ''stream_name'' (PStr ''prediction_visual''),
      map_of cfg ''notifications'', map_of cfg ''detect_with_server'')"

definition notify_ab_config :: config where
  "notify_ab_config = [(''video_url'', PStr ''rtsp://a''), (''model_key'', PStr ''yolo11n''),
                       (''site'', PStr ''S''), (''stream_name'', PStr ''X''),
                       (''notifications'', PDict [(''a'', ''en''), (''b'', ''zh-TW'')]),
                       (''detect_with_server'', PBool True)]"

definition notify_ba_config :: config where
  "notify_ba_config = [(''video_url'', PStr ''rtsp://a''), (''model_key'', PStr ''yolo11n''),
                       (''site'', PStr ''S''), (''stream_name'', PStr ''X''),
                       (''notifications'', PDict [(''b'', ''zh-TW''), (''a'', ''en'')]),
                       (''detect_with_server'', PBool True)]"

section \<open>Properties\<close>

subsection \<open>Back-pressure on the capture interval\<close>

lemma process_frame_interval:
  assumes "process_frame E site sn notifications f w = (w', es, None)"
  shows "capture_interval (snd w') = new_interval (end_time f - start_time f)
     \<and> UpdateInterval (new_interval (end_time f - start_time f)) \<in> set es"
  using assms
  by (auto simp add: process_frame_def Let_def update_capture_interval_def
      split: sum.splits prod.splits if_splits pyval.splits)

lemma frame_loop_last:
  "frame_loop E site sn notifications (fs @ [f]) w = (w', es, None) \<Longrightarrow>
   \<exists>w1 es1. process_frame E site sn notifications f w1 = (w', es1, None)"
proof (induction fs arbitrary: w es)
  case Nil
  obtain w1 es1 r1 where a: "process_frame E site sn notifications f w = (w1, es1, r1)"
    by (cases "process_frame E site sn notifications f w")
  with Nil have "r1 = None" "w1 = w'" by (cases r1; auto)+
  with a show ?case by blast
next
  case (Cons a fs)
  obtain w1 es1 r1 where a: "process_frame E site sn notifications a w = (w1, es1, r1)"
    by (cases "process_frame E site sn notifications a w")
  with Cons.prems have r1: "r1 = None" by (cases r1) auto
  obtain w2 es2 r2 where b: "frame_loop E site sn notifications (fs @ [f]) w1 = (w2, es2, r2)"
    by (cases "frame_loop E site sn notifications (fs @ [f]) w1")
  with Cons.prems a r1 have "w2 = w'" "r2 = None" by auto
  with b Cons.IH [of w1 es2] show ?case by simp
qed

text \<open>
  Claim C7. A frame that the worker has processed without an exception leaves the capture
  interval of the session at the floor of the processing latency (end time minus start
  time, not negative) plus five seconds, and the worker reports that interval to the
  capture; so it is after each frame of the frame loop, whatever frames came before; a
  latency of 2.7 seconds gives an interval of 7 seconds.
\<close>

theorem capture_interval_after_frame:
  "(process_frame E site sn notifications f w = (w', es, None) \<and> start_time f \<le> end_time f \<longrightarrow>
      capture_interval (snd w') = \<lfloor>end_time f - start_time f\<rfloor> + 5
      \<and> UpdateInterval (\<lfloor>end_time f - start_time f\<rfloor> + 5) \<in> set es)
   \<and> (frame_loop E site sn notifications (fs @ [f]) w = (w', es, None)
        \<and> start_time f \<le> end_time f \<longrightarrow>
      capture_interval (snd w') = \<lfloor>end_time f - start_time f\<rfloor> + 5)
   \<and> (process_frame E site sn notifications f w = (w', es, None)
        \<and> end_time f - start_time f = 2.7 \<longrightarrow>
      capture_interval (snd w') = 7)"
proof (intro conjI impI)
  assume a: "process_frame E site sn notifications f w = (w', es, None) \<and> start_time f \<le> end_time f"
  then have n: "new_interval (end_time f - start_time f) = \<lfloor>end_time f - start_time f\<rfloor> + 5"
    by (simp add: new_interval_def py_int_def)
  from a process_frame_interval [of E site sn notifications f w w' es]
  show "capture_interval (snd w') = \<lfloor>end_time f - start_time f\<rfloor> + 5"
    and "UpdateInterval (\<lfloor>end_time f - start_time f\<rfloor> + 5) \<in> set es"
    unfolding n by simp_all
next
  assume a: "frame_loop E site sn notifications (fs @ [f]) w = (w', es, None)
        \<and> start_time f \<le> end_time f"
  then have n: "new_interval (end_time f - start_time f) = \<lfloor>end_time f - start_time f\<rfloor> + 5"
    by (simp add: new_interval_def py_int_def)
  from a frame_loop_last [of E site sn notifications fs f w w' es]
  obtain w1 es1 where "process_frame E site sn notifications f w1 = (w', es1, None)" by blast
  from process_frame_interval [OF this]
  show "capture_interval (snd w') = \<lfloor>end_time f - start_time f\<rfloor> + 5"
    unfolding n by simp
next
  assume a: "process_frame E site sn notifications f w = (w', es, None)
        \<and> end_time f - start_time f = 2.7"
  then have "end_time f - start_time f = 2.7" by simp
  then have n: "new_interval (end_time f - start_time f) = 7"
    by (simp only: new_interval_def py_int_def) simp
  from a process_frame_interval [of E site sn notifications f w w' es]
  show "capture_interval (snd w') = 7" unfolding n by simp
qed

theorem capture_interval_after_frame_witness:
  "snd (snd (frame_loop demo_env (PStr ''S'') (PStr ''X'') (PDict [(''a'', ''en'')])
               ([night_frame] @ [night_frame])
               (700, \<lparr>stream_url = ''rtsp://a'', capture_interval = 15\<rparr>))) = None
   \<and> start_time night_frame \<le> end_time night_frame
   \<and> end_time night_frame - start_time night_frame = 2.7
   \<and> capture_interval (snd (fst (frame_loop demo_env (PStr ''S'') (PStr ''X'') (PDict [(''a'', ''en'')])
               ([night_frame] @ [night_frame])
               (700, \<lparr>stream_url = ''rtsp://a'', capture_interval = 15\<rparr>)))) = 7
   \<and> capture_interval (snd (fst (process_frame demo_env (PStr ''S'') (PStr ''X'') (PDict [(''a'', ''en'')])
               night_frame (700, \<lparr>stream_url = ''rtsp://a'', capture_interval = 15\<rparr>)))) = 7"
proof -
  let ?w = "(700 :: int, \<lparr>stream_url = ''rtsp://a'', capture_interval = 15\<rparr>)"
  let ?N = "PDict [(''a'', ''en'')]"
  let ?p = "process_frame demo_env (PStr ''S'') (PStr ''X'') ?N night_frame ?w"
  let ?l = "frame_loop demo_env (PStr ''S'') (PStr ''X'') ?N ([night_frame] @ [night_frame]) ?w"
  have pok: "snd (snd (process_frame demo_env (PStr ''S'') (PStr ''X'') ?N night_frame w0)) = None" for w0
    by (simp add: process_frame_def Let_def split_beta)
  have lok: "snd (snd ?l) = None"
    using pok by (simp add: split_beta split: option.splits prod.splits)
  have t: "start_time night_frame \<le> end_time night_frame"
    "end_time night_frame - start_time night_frame = 2.7"
    by (simp_all add: night_frame_def)
  have pe: "?p = (fst ?p, fst (snd ?p), None)" using pok [of ?w] by (metis prod.collapse)
  have le: "?l = (fst ?l, fst (snd ?l), None)" using lok by (metis prod.collapse)
  from capture_interval_after_frame [where E = demo_env and site = "PStr ''S''" and sn = "PStr ''X''"
      and notifications = ?N and f = night_frame and w = ?w and w' = "fst ?p" and es = "fst (snd ?p)"] pe t
  have 1: "capture_interval (snd (fst ?p)) = 7" by simp
  from capture_interval_after_frame [where E = demo_env and site = "PStr ''S''" and sn = "PStr ''X''"
      and notifications = ?N and f = night_frame and fs = "[night_frame]" and w = ?w
      and w' = "fst ?l" and es = "fst (snd ?l)"] le t
  have 2: "capture_interval (snd (fst ?l)) = 7" by simp
  show ?thesis using lok t 1 2 by simp
qed

subsection \<open>The notification cooldown\<close>

lemma py_int_bounds: "x - 1 < real_of_int (py_int x) \<and> real_of_int (py_int x) < x + 1"
  unfolding py_int_def by (auto; linarith)

lemma in_cooldown_after_send: "in_cooldown ts (py_int ts)"
  using py_int_bounds [of ts] by (simp add: in_cooldown_def)

lemma notify_channel_suppressed:
  "in_cooldown (timestamp f) (last_notification_time st) \<Longrightarrow>
   snd (notify_channel E sn f c st) = [Suppress (fst c)]
   \<and> last_notification_time (fst (notify_channel E sn f c st)) = last_notification_time st"
  by (simp add: notify_channel_def Let_def)

lemma notify_channels_suppressed:
  "in_cooldown (timestamp f) (last_notification_time st) \<Longrightarrow>
   snd (notify_channels E sn f chans st) = map (\<lambda>c. Suppress (fst c)) chans
   \<and> last_notification_time (fst (notify_channels E sn f chans st)) = last_notification_time st"
proof (induction chans arbitrary: st)
  case Nil
  then show ?case by simp
next
  case (Cons c chans)
  let ?st1 = "fst (notify_channel E sn f c st)"
  from notify_channel_suppressed [OF Cons.prems, of E sn c]
  have 1: "snd (notify_channel E sn f c st) = [Suppress (fst c)]"
    and 2: "last_notification_time ?st1 = last_notification_time st" by simp_all
  have "in_cooldown (timestamp f) (last_notification_time ?st1)" using Cons.prems 2 by simp
  from Cons.IH [OF this] show ?case using 1 2
    by (simp add: split_beta)
qed

lemma notify_channel_sends:
  "length (filter (is_send_to t) (snd (notify_channel E sn f c st))) \<le> (if fst c = t then 1 else 0)"
  by (simp add: notify_channel_def is_send_to_def Let_def)

lemma sends_bounded:
  "length (filter (is_send_to t) (snd (notify_channels E sn f chans st)))
     \<le> length (filter (\<lambda>c. fst c = t) chans)"
proof (induction chans arbitrary: st)
  case Nil
  then show ?case by simp
next
  case (Cons c chans)
  show ?case
    using notify_channel_sends [of t E sn f c st] Cons.IH [of "fst (notify_channel E sn f c st)"]
    by (simp add: split_beta split: if_splits)
qed

lemma notify_channel_sent:
  assumes "\<not> in_cooldown (timestamp f) (last_notification_time st)"
    and "compose_message E sn f lang = Some m" and "m \<noteq> []"
  shows "notify_channel E sn f (tok, lang) st =
     (if send_notification E m tok = 200
      then st\<lparr>frame_with_detections := Some lang, last_notification_time := py_int (timestamp f)\<rparr>
      else st\<lparr>frame_with_detections := Some lang\<rparr>,
      [Draw lang, SendNotification tok m (send_notification E m tok),
       Log ((if send_notification E m tok = 200 then ''Notification sent successfully: ''
             else ''Failed to send notification: '') @ m),
       Log (''Notification sent to '' @ tok @ '' in '' @ lang @ ''.'')])"
  using assms by (simp add: notify_channel_def Let_def)

lemma notify_channel_first_effect:
  "\<not> in_cooldown (timestamp f) (last_notification_time st) \<Longrightarrow>
   \<exists>es. snd (notify_channel E sn f (tok, lang) st) = Draw lang # es"
  by (simp add: notify_channel_def Let_def)

lemma notify_channels_sent_ok:
  assumes "\<not> in_cooldown (timestamp f) (last_notification_time st)"
    and "compose_message E sn f lang = Some m" and "m \<noteq> []"
    and "send_notification E m tok = 200"
  shows "snd (notify_channels E sn f ((tok, lang) # rest) st)
        = [Draw lang, SendNotification tok m 200,
           Log (''Notification sent successfully: '' @ m),
           Log (''Notification sent to '' @ tok @ '' in '' @ lang @ ''.'')]
          @ map (\<lambda>c. Suppress (fst c)) rest
     \<and> last_notification_time (fst (notify_channels E sn f ((tok, lang) # rest) st))
          = py_int (timestamp f)"
proof -
  let ?st1 = "st\<lparr>frame_with_detections := Some lang, last_notification_time := py_int (timestamp f)\<rparr>"
  have step: "notify_channel E sn f (tok, lang) st =
      (?st1, [Draw lang, SendNotification tok m 200,
           Log (''Notification sent successfully: '' @ m),
           Log (''Notification sent to '' @ tok @ '' in '' @ lang @ ''.'')])"
    using assms notify_channel_sent [of f st E sn lang m tok] by simp
  have cd: "in_cooldown (timestamp f) (last_notification_time ?st1)"
    by (simp add: in_cooldown_after_send)
  note later = notify_channels_suppressed [OF cd, of E sn rest]
  show ?thesis using step later by (simp add: split_beta)
qed

lemma process_frame_notified:
  assumes "d \<noteq> []"
  shows "fst (fst (process_frame E site sn (PDict d) f w))
           = last_notification_time (fst (notify_channels E sn f d (fresh_notify_state (fst w))))
     \<and> (\<exists>es2. fst (snd (process_frame E site sn (PDict d) f w))
                 = snd (notify_channels E sn f d (fresh_notify_state (fst w))) @ es2)
     \<and> snd (snd (process_frame E site sn (PDict d) f w)) = None"
  using assms
  by (simp add: process_frame_def Let_def split_beta fresh_notify_state_def)

lemma frame_loop_two:
  assumes "d \<noteq> []"
  shows "fst (snd (frame_loop E site sn (PDict d) [f, g] w))
     = fst (snd (process_frame E site sn (PDict d) f w))
       @ fst (snd (process_frame E site sn (PDict d) g (fst (process_frame E site sn (PDict d) f w))))"
proof -
  obtain w1 es1 r1 where a: "process_frame E site sn (PDict d) f w = (w1, es1, r1)"
    by (cases "process_frame E site sn (PDict d) f w")
  with process_frame_notified [OF assms, of E site sn f w] have r1: "r1 = None" by simp
  obtain w2 es2 r2 where b: "process_frame E site sn (PDict d) g w1 = (w2, es2, r2)"
    by (cases "process_frame E site sn (PDict d) g w1")
  with process_frame_notified [OF assms, of E site sn g w1] have r2: "r2 = None" by simp
  show ?thesis using a b r1 r2 by simp
qed

text \<open>
  Claim C5, as the code has it. In a pass over the channels of a stream at the time of a
  frame: a channel checked while the frame's time minus the last-sent time is below 300
  seconds is suppressed without a send, and so are all channels after it, the last-sent
  time staying as it was; a send answered with status 200 sets the last-sent time at once
  to the whole seconds of the frame's time (\<^verbatim>\<open>int(timestamp)\<close>), so that every later
  channel of the pass is suppressed; a send answered otherwise leaves the last-sent time
  as it was and the pass goes on with the next channel; no token is sent to more often
  than it occurs among the channels, so a failed send is not tried again. The worker
  runs this pass for each frame and carries the last-sent time it ends with to the next
  frame: after a frame with a successful send, a frame 100 seconds later has all its
  channels suppressed, and a frame 301 seconds later has its first channel processed.
\<close>

theorem notification_cooldown:
  "(in_cooldown (timestamp f) (last_notification_time st0) \<longrightarrow>
      snd (notify_channels E sn f chans st0) = map (\<lambda>c. Suppress (fst c)) chans
      \<and> last_notification_time (fst (notify_channels E sn f chans st0)) = last_notification_time st0)
   \<and> (\<not> in_cooldown (timestamp f) (last_notification_time st)
        \<and> compose_message E sn f lang = Some m \<and> m \<noteq> [] \<and> send_notification E m tok = 200 \<longrightarrow>
      snd (notify_channels E sn f ((tok, lang) # rest) st)
        = [Draw lang, SendNotification tok m 200,
           Log (''Notification sent successfully: '' @ m),
           Log (''Notification sent to '' @ tok @ '' in '' @ lang @ ''.'')]
          @ map (\<lambda>c. Suppress (fst c)) rest
      \<and> last_notification_time (fst (notify_channels E sn f ((tok, lang) # rest) st))
          = py_int (timestamp f))
   \<and> (\<not> in_cooldown (timestamp f) (last_notification_time st)
        \<and> compose_message E sn f lang = Some m \<and> m \<noteq> [] \<and> send_notification E m tok' \<noteq> 200 \<longrightarrow>
      notify_channels E sn f ((tok', lang) # rest) st
        = (fst (notify_channels E sn f rest (st\<lparr>frame_with_detections := Some lang\<rparr>)),
           [Draw lang, SendNotification tok' m (send_notification E m tok'),
            Log (''Failed to send notification: '' @ m),
            Log (''Notification sent to '' @ tok' @ '' in '' @ lang @ ''.'')]
           @ snd (notify_channels E sn f rest (st\<lparr>frame_with_detections := Some lang\<rparr>))))
   \<and> length (filter (is_send_to t) (snd (notify_channels E sn f chans st)))
        \<le> length (filter (\<lambda>c. fst c = t) chans)
   \<and> (\<not> in_cooldown (timestamp f) (fst w)
        \<and> compose_message E sn f lang = Some m \<and> m \<noteq> [] \<and> send_notification E m tok = 200 \<longrightarrow>
      fst (fst (process_frame E site sn (PDict ((tok, lang) # rest)) f w)) = py_int (timestamp f)
      \<and> (timestamp g = timestamp f + 100 \<longrightarrow>
           (\<exists>es2. fst (snd (frame_loop E site sn (PDict ((tok, lang) # rest)) [f, g] w))
                  = fst (snd (process_frame E site sn (PDict ((tok, lang) # rest)) f w))
                    @ map (\<lambda>c. Suppress (fst c)) ((tok, lang) # rest) @ es2))
      \<and> (timestamp h = timestamp f + 301 \<longrightarrow>
           (\<exists>es2. fst (snd (frame_loop E site sn (PDict ((tok, lang) # rest)) [f, h] w))
                  = fst (snd (process_frame E site sn (PDict ((tok, lang) # rest)) f w))
                    @ Draw lang # es2)))
   \<and> (d \<noteq> [] \<longrightarrow>
        fst (fst (process_frame E site sn (PDict d) f w))
          = last_notification_time (fst (notify_channels E sn f d (fresh_notify_state (fst w))))
        \<and> (\<exists>es2. fst (snd (process_frame E site sn (PDict d) f w))
                    = snd (notify_channels E sn f d (fresh_notify_state (fst w))) @ es2)
        \<and> snd (snd (process_frame E site sn (PDict d) f w)) = None)"
proof (intro conjI impI)
  assume "in_cooldown (timestamp f) (last_notification_time st0)"
  from notify_channels_suppressed [OF this]
  show "snd (notify_channels E sn f chans st0) = map (\<lambda>c. Suppress (fst c)) chans"
    and "last_notification_time (fst (notify_channels E sn f chans st0)) = last_notification_time st0"
    by simp_all
next
  assume a: "\<not> in_cooldown (timestamp f) (last_notification_time st)
        \<and> compose_message E sn f lang = Some m \<and> m \<noteq> [] \<and> send_notification E m tok = 200"
  from notify_channels_sent_ok [of f st E sn lang m tok rest] a
  show "snd (notify_channels E sn f ((tok, lang) # rest) st)
        = [Draw lang, SendNotification tok m 200,
           Log (''Notification sent successfully: '' @ m),
           Log (''Notification sent to '' @ tok @ '' in '' @ lang @ ''.'')]
          @ map (\<lambda>c. Suppress (fst c)) rest"
    and "last_notification_time (fst (notify_channels E sn f ((tok, lang) # rest) st))
          = py_int (timestamp f)"
    by simp_all
next
  assume a: "\<not> in_cooldown (timestamp f) (last_notification_time st)
        \<and> compose_message E sn f lang = Some m \<and> m \<noteq> [] \<and> send_notification E m tok' \<noteq> 200"
  show "notify_channels E sn f ((tok', lang) # rest) st
        = (fst (notify_channels E sn f rest (st\<lparr>frame_with_detections := Some lang\<rparr>)),
           [Draw lang, SendNotification tok' m (send_notification E m tok'),
            Log (''Failed to send notification: '' @ m),
            Log (''Notification sent to '' @ tok' @ '' in '' @ lang @ ''.'')]
           @ snd (notify_channels E sn f rest (st\<lparr>frame_with_detections := Some lang\<rparr>)))"
    using a notify_channel_sent [of f st E sn lang m tok'] by (simp add: split_beta)
next
  show "length (filter (is_send_to t) (snd (notify_channels E sn f chans st)))
        \<le> length (filter (\<lambda>c. fst c = t) chans)"
    by (rule sends_bounded)
next
  assume a: "\<not> in_cooldown (timestamp f) (fst w)
        \<and> compose_message E sn f lang = Some m \<and> m \<noteq> [] \<and> send_notification E m tok = 200"
  let ?d = "(tok, lang) # rest"
  let ?N = "PDict ?d"
  have ne: "?d \<noteq> []" by simp
  have nc: "\<not> in_cooldown (timestamp f) (last_notification_time (fresh_notify_state (fst w)))"
    using a by (simp add: fresh_notify_state_def)
  from notify_channels_sent_ok [of f "fresh_notify_state (fst w)" E sn lang m tok rest] nc a
  have lst: "last_notification_time (fst (notify_channels E sn f ?d (fresh_notify_state (fst w))))
      = py_int (timestamp f)" by simp
  with process_frame_notified [OF ne, of E site sn f w]
  show carried: "fst (fst (process_frame E site sn ?N f w)) = py_int (timestamp f)" by simp
  let ?w1 = "fst (process_frame E site sn ?N f w)"
  show "\<exists>es2. fst (snd (frame_loop E site sn ?N [f, g] w))
                  = fst (snd (process_frame E site sn ?N f w))
                    @ map (\<lambda>c. Suppress (fst c)) ?d @ es2"
    if t: "timestamp g = timestamp f + 100"
  proof -
    have "in_cooldown (timestamp g) (last_notification_time (fresh_notify_state (fst ?w1)))"
      using t py_int_bounds [of "timestamp f"] carried
      by (simp add: fresh_notify_state_def in_cooldown_def)
    from notify_channels_suppressed [OF this, of E sn ?d]
    have "snd (notify_channels E sn g ?d (fresh_notify_state (fst ?w1)))
        = map (\<lambda>c. Suppress (fst c)) ?d" by simp
    with process_frame_notified [OF ne, of E site sn g ?w1]
    obtain es2 where "fst (snd (process_frame E site sn ?N g ?w1))
        = map (\<lambda>c. Suppress (fst c)) ?d @ es2" by auto
    then show ?thesis using frame_loop_two [OF ne, of E site sn f g w] by simp
  qed
  show "\<exists>es2. fst (snd (frame_loop E site sn ?N [f, h] w))
                  = fst (snd (process_frame E site sn ?N f w)) @ Draw lang # es2"
    if t: "timestamp h = timestamp f + 301"
  proof -
    have "\<not> in_cooldown (timestamp h) (last_notification_time (fresh_notify_state (fst ?w1)))"
      using t py_int_bounds [of "timestamp f"] carried
      by (simp add: fresh_notify_state_def in_cooldown_def)
    from notify_channel_first_effect [OF this, of E sn tok lang]
    obtain es1 where "snd (notify_channel E sn h (tok, lang) (fresh_notify_state (fst ?w1)))
        = Draw lang # es1" by blast
    then have "\<exists>es. snd (notify_channels E sn h ?d (fresh_notify_state (fst ?w1))) = Draw lang # es"
      by (simp add: split_beta)
    with process_frame_notified [OF ne, of E site sn h ?w1]
    obtain es2 where "fst (snd (process_frame E site sn ?N h ?w1)) = Draw lang # es2" by auto
    then show ?thesis using frame_loop_two [OF ne, of E site sn f h w] by simp
  qed
next
  assume ne: "d \<noteq> []"
  from process_frame_notified [OF ne, of E site sn f w]
  show "fst (fst (process_frame E site sn (PDict d) f w))
          = last_notification_time (fst (notify_channels E sn f d (fresh_notify_state (fst w))))"
    and "\<exists>es2. fst (snd (process_frame E site sn (PDict d) f w))
                    = snd (notify_channels E sn f d (fresh_notify_state (fst w))) @ es2"
    and "snd (snd (process_frame E site sn (PDict d) f w)) = None"
    by simp_all
qed

theorem notification_cooldown_witness:
  "snd (notify_channels demo_env (PStr ''cam'') night_frame
          [(''a'', ''en''), (''b'', ''en'')] (fresh_notify_state 900))
     = [Suppress ''a'', Suppress ''b'']
   \<and> sent_messages (snd (notify_channels demo_env (PStr ''cam'') night_frame
                            [(''a'', ''en''), (''b'', ''en'')] (fresh_notify_state 0)))
       = [the (compose_message demo_env (PStr ''cam'') night_frame ''en'')]
   \<and> last_notification_time (fst (notify_channels demo_env (PStr ''cam'') night_frame
                                     [(''a'', ''en''), (''b'', ''en'')] (fresh_notify_state 0)))
       = 1000
   \<and> (\<exists>es2. fst (snd (frame_loop demo_env (PStr ''S'') (PStr ''cam'')
                         (PDict [(''a'', ''en''), (''b'', ''en'')])
                         [night_frame, night_frame\<lparr>timestamp := 1100.5\<rparr>]
                         (0, \<lparr>stream_url = ''rtsp://a'', capture_interval = 15\<rparr>)))
              = fst (snd (process_frame demo_env (PStr ''S'') (PStr ''cam'')
                            (PDict [(''a'', ''en''), (''b'', ''en'')]) night_frame
                            (0, \<lparr>stream_url = ''rtsp://a'', capture_interval = 15\<rparr>)))
                @ [Suppress ''a'', Suppress ''b''] @ es2)"
proof -
  let ?m = "the (compose_message demo_env (PStr ''cam'') night_frame ''en'')"
  let ?w = "(0 :: int, \<lparr>stream_url = ''rtsp://a'', capture_interval = 15\<rparr>)"
  have m: "compose_message demo_env (PStr ''cam'') night_frame ''en'' = Some ?m" "?m \<noteq> []"
    by (simp_all add: compose_message_def demo_env_def night_frame_def controlled_zone_warning_def
        working_hours_def message_header_def)
  have h1: "in_cooldown (timestamp night_frame) (last_notification_time (fresh_notify_state 900))"
    by (simp add: in_cooldown_def night_frame_def fresh_notify_state_def)
  have h2: "\<not> in_cooldown (timestamp night_frame) (last_notification_time (fresh_notify_state 0))"
    "\<not> in_cooldown (timestamp night_frame) (fst ?w)"
    by (simp_all add: in_cooldown_def night_frame_def fresh_notify_state_def)
  have h3: "send_notification demo_env ?m ''a'' = 200"
    "send_notification demo_env ?m ''bad-token'' \<noteq> 200"
    by (simp_all add: demo_env_def)
  have h4: "timestamp (night_frame\<lparr>timestamp := 1301.5\<rparr>) = timestamp night_frame + 301"
    "timestamp (night_frame\<lparr>timestamp := 1100.5\<rparr>) = timestamp night_frame + 100"
    by (simp_all add: night_frame_def)
  have pi: "py_int (timestamp night_frame) = 1000"
    by (simp add: py_int_def night_frame_def)
  from notification_cooldown [where f = night_frame and ?st0.0 = "fresh_notify_state 900"
      and E = demo_env and sn = "PStr ''cam''" and chans = "[(''a'', ''en''), (''b'', ''en'')]"
      and st = "fresh_notify_state 0" and lang = "''en''" and m = ?m and tok = "''a''"
      and rest = "[(''b'', ''en'')]" and tok' = "''bad-token''" and t = "''a''" and w = ?w
      and site = "PStr ''S''" and g = "night_frame\<lparr>timestamp := 1100.5\<rparr>"
      and h = "night_frame\<lparr>timestamp := 1301.5\<rparr>"
      and d = "[(''a'', ''en''), (''b'', ''en'')]"]
    h1 h2 h3 h4 m
  show ?thesis by (simp add: pi)
qed

text \<open>
  The last-sent time is not the time of the send but its whole seconds: after a send at
  1000.5 it is 1000, and a frame at 1300.1, which is 299.6 seconds after the send, is
  sent for again.
\<close>

theorem notification_cooldown_counterexample:
  "last_notification_time (fst (notify_channels demo_env (PStr ''cam'') night_frame
                                  [(''a'', ''en'')] (fresh_notify_state 0))) = 1000
   \<and> real_of_int 1000 \<noteq> timestamp night_frame
   \<and> timestamp (night_frame\<lparr>timestamp := 1300.1\<rparr>) - timestamp night_frame < 300
   \<and> length (sent_messages (fst (snd (frame_loop demo_env (PStr ''S'') (PStr ''cam'')
                (PDict [(''a'', ''en'')])
                [night_frame, night_frame\<lparr>timestamp := 1300.1\<rparr>]
                (0, \<lparr>stream_url = ''rtsp://a'', capture_interval = 15\<rparr>))))) = 2"
  by (simp add: notify_channel_def Let_def split_beta process_frame_def in_cooldown_def
      night_frame_def demo_env_def fresh_notify_state_def compose_message_def
      controlled_zone_warning_def working_hours_def message_header_def py_int_def)

subsection \<open>The first frame of a worker\<close>




subsection \<open>The message of a channel\<close>

lemma controlled_zone_warning_str_find:
  "controlled_zone_warning_str ws = find (contains ''controlled area'') ws"
  by (induction ws) simp_all

lemma contains_nonempty: "contains sub w \<Longrightarrow> sub \<noteq> [] \<Longrightarrow> w \<noteq> []"
  by (cases w) simp_all

lemma controlled_zone_warning_find:
  "controlled_zone_warning ws =
     (case find (contains ''controlled area'') ws of None \<Rightarrow> [] | Some w \<Rightarrow> [w])"
proof (cases "find (contains ''controlled area'') ws")
  case None
  then show ?thesis by (simp add: controlled_zone_warning_def controlled_zone_warning_str_find)
next
  case (Some w)
  then have "contains ''controlled area'' w" by (auto simp: find_Some_iff)
  then have "w \<noteq> []" using contains_nonempty by fastforce
  with Some show ?thesis by (simp add: controlled_zone_warning_def controlled_zone_warning_str_find)
qed

lemma message_header_nonempty: "message_header sn dt @ body \<noteq> []"
  by (simp add: message_header_def)

text \<open>
  What the notification loop sends for a channel that the cooldown does not suppress,
  branch by branch of the code.
\<close>

lemma channel_message:
  "\<not> in_cooldown (timestamp f) (last_notification_time st) \<longrightarrow>
   sent_messages (snd (notify_channel E sn f (tok, lang) st)) =
     (if (\<exists>w \<in> set (warnings f). contains ''controlled area'' w)
         \<and> \<not> (7 \<le> current_hour f \<and> current_hour f < 18) then
        [py_str sn @ [CHR 0x0A] @ ''['' @ detection_time f @ '']'' @ [CHR 0x0A]
         @ repr_list (translate_warning E
                        [the (find (contains ''controlled area'') (warnings f))] lang)]
      else if translate_warning E (warnings f) lang \<noteq> []
              \<and> 7 \<le> current_hour f \<and> current_hour f < 18 then
        [py_str sn @ [CHR 0x0A] @ ''['' @ detection_time f @ '']'' @ [CHR 0x0A]
         @ join [CHR 0x0A] (translate_warning E (warnings f) lang)]
      else [])"
proof
  assume nc: "\<not> in_cooldown (timestamp f) (last_notification_time st)"
  have ex: "(\<exists>w \<in> set (warnings f). contains ''controlled area'' w)
      \<longleftrightarrow> find (contains ''controlled area'') (warnings f) \<noteq> None"
    by (auto simp: find_None_iff)
  show "sent_messages (snd (notify_channel E sn f (tok, lang) st)) =
     (if (\<exists>w \<in> set (warnings f). contains ''controlled area'' w)
         \<and> \<not> (7 \<le> current_hour f \<and> current_hour f < 18) then
        [py_str sn @ [CHR 0x0A] @ ''['' @ detection_time f @ '']'' @ [CHR 0x0A]
         @ repr_list (translate_warning E
                        [the (find (contains ''controlled area'') (warnings f))] lang)]
      else if translate_warning E (warnings f) lang \<noteq> []
              \<and> 7 \<le> current_hour f \<and> current_hour f < 18 then
        [py_str sn @ [CHR 0x0A] @ ''['' @ detection_time f @ '']'' @ [CHR 0x0A]
         @ join [CHR 0x0A] (translate_warning E (warnings f) lang)]
      else [])"
    unfolding ex using nc
    by (auto simp add: notify_channel_def Let_def compose_message_def controlled_zone_warning_find
        working_hours_def message_header_def split: option.splits)
qed

text \<open>
  Claim C6 at a failing input. At three o'clock at night, with a translator that returns
  the warnings unchanged, the out-of-hours branch sends the header followed by the Python
  list text of the restricted-zone warning, brackets and quotes included, not the warning
  itself; at nine o'clock the working-hours branch sends the header followed by the
  warnings joined by newlines.
\<close>

theorem night_message_is_list_text:
  "translate_warning demo_env [''Warning: 2 people have entered the controlled area!''] ''en''
     = [''Warning: 2 people have entered the controlled area!'']
   \<and> sent_messages (snd (notify_channel demo_env (PStr ''cam'') night_frame (''a'', ''en'')
                            (fresh_notify_state 0)))
     = [''cam'' @ [CHR 0x0A] @ ''[2024-05-01 03:00:00]'' @ [CHR 0x0A]
        @ ''['' @ [squote] @ ''Warning: 2 people have entered the controlled area!''
        @ [squote] @ '']'']
   \<and> sent_messages (snd (notify_channel demo_env (PStr ''cam'') (night_frame\<lparr>current_hour := 9\<rparr>)
                            (''a'', ''en'') (fresh_notify_state 0)))
     = [''cam'' @ [CHR 0x0A] @ ''[2024-05-01 03:00:00]'' @ [CHR 0x0A]
        @ ''Warning: Someone is not wearing a hardhat!'' @ [CHR 0x0A]
        @ ''Warning: 2 people have entered the controlled area!'']"
proof -
  have h: "\<not> in_cooldown (timestamp night_frame) (last_notification_time (fresh_notify_state 0))"
    "\<not> in_cooldown (timestamp (night_frame\<lparr>current_hour := 9\<rparr>))
        (last_notification_time (fresh_notify_state 0))"
    by (simp_all add: in_cooldown_def night_frame_def fresh_notify_state_def)
  have r: "repr_list [''Warning: 2 people have entered the controlled area!'']
     = ''['' @ [squote] @ ''Warning: 2 people have entered the controlled area!'' @ [squote] @ '']''"
    by (simp add: repr_list_def repr_str_def repr_quote_def repr_char_def printable_def Let_def)
  from channel_message [of night_frame "fresh_notify_state 0" demo_env "PStr ''cam''" "''a''" "''en''"] h
  have 1: "sent_messages (snd (notify_channel demo_env (PStr ''cam'') night_frame (''a'', ''en'')
                            (fresh_notify_state 0)))
     = [''cam'' @ [CHR 0x0A] @ ''[2024-05-01 03:00:00]'' @ [CHR 0x0A]
        @ ''['' @ [squote] @ ''Warning: 2 people have entered the controlled area!''
        @ [squote] @ '']'']"
    by (simp add: night_frame_def demo_env_def r)
  from channel_message [of "night_frame\<lparr>current_hour := 9\<rparr>" "fresh_notify_state 0" demo_env
      "PStr ''cam''" "''a''" "''en''"] h
  have 2: "sent_messages (snd (notify_channel demo_env (PStr ''cam'') (night_frame\<lparr>current_hour := 9\<rparr>)
                            (''a'', ''en'') (fresh_notify_state 0)))
     = [''cam'' @ [CHR 0x0A] @ ''[2024-05-01 03:00:00]'' @ [CHR 0x0A]
        @ ''Warning: Someone is not wearing a hardhat!'' @ [CHR 0x0A]
        @ ''Warning: 2 people have entered the controlled area!'']"
    by (simp add: night_frame_def demo_env_def)
  have 0: "translate_warning demo_env [''Warning: 2 people have entered the controlled area!''] ''en''
     = [''Warning: 2 people have entered the controlled area!'']"
    by (simp add: demo_env_def)
  show ?thesis using 0 1 2 by blast
qed

subsection \<open>Who deletes buffer keys\<close>

lemma notify_channel_no_delete: "filter is_delete (snd (notify_channel E sn f c st)) = []"
  by (simp add: notify_channel_def Let_def is_delete_def)

lemma notify_channels_no_delete: "filter is_delete (snd (notify_channels E sn f chans st)) = []"
  by (induction chans arbitrary: st) (simp_all add: split_beta notify_channel_no_delete)

lemma process_frame_no_delete:
  "filter is_delete (fst (snd (process_frame E site sn notifications f w))) = []"
proof -
  have n: "filter is_delete b = []" if "notify_channels E sn f d st = (a, b)" for d st a b
    using notify_channels_no_delete [of E sn f d st] that by simp
  show ?thesis
    by (auto simp add: process_frame_def Let_def is_delete_def n
        split: sum.splits pyval.splits option.splits prod.splits)
qed

lemma frame_loop_no_delete:
  "filter is_delete (fst (snd (frame_loop E site sn notifications fs w))) = []"
proof (induction fs arbitrary: w)
  case Nil
  then show ?case by simp
next
  case (Cons f fs)
  obtain w1 es1 r1 where pf: "process_frame E site sn notifications f w = (w1, es1, r1)"
    by (cases "process_frame E site sn notifications f w")
  have 1: "filter is_delete es1 = []" using process_frame_no_delete [of E site sn notifications f w] pf by simp
  obtain w2 es2 r2 where fl: "frame_loop E site sn notifications fs w1 = (w2, es2, r2)"
    by (cases "frame_loop E site sn notifications fs w1")
  have 2: "filter is_delete es2 = []" using Cons.IH [of w1] fl by simp
  show ?case using pf fl 1 2 by (cases r1) simp_all
qed

lemma process_single_stream_no_delete:
  "filter is_delete (fst (process_single_stream E now url site sn notifications fs ce)) = []"
proof -
  let ?w = "(initial_last_notification_time now, \<lparr>stream_url = py_str url, capture_interval = 15\<rparr>)"
  obtain w2 es2 r2 where fl: "frame_loop E site sn notifications fs ?w = (w2, es2, r2)"
    by (cases "frame_loop E site sn notifications fs ?w")
  have "filter is_delete es2 = []" using frame_loop_no_delete [of E site sn notifications fs ?w] fl by simp
  then show ?thesis using fl
    by (simp add: process_single_stream_def Let_def is_delete_def split: option.splits)
qed

text \<open>
  Claim C9, as the code has it. While it processes frames a worker deletes no buffer key;
  the \<^verbatim>\<open>finally\<close> clause of \<^verbatim>\<open>process_streams\<close> deletes the worker's own key once,
  as the last thing the worker does, whether its body returned or raised, unless the
  platform is Windows.
\<close>

theorem worker_deletes_key_at_termination:
  "filter is_delete (fst (process_single_stream E now url site sn notifications fs ce)) = []
   \<and> filter is_delete (fst (process_streams E now cfg fs ce))
       = (if is_windows E then []
          else [RedisDelete (buffer_key (dict_get cfg ''site'' PNone)
                               (dict_get cfg ''stream_name'' (PStr ''prediction_visual'')))])
   \<and> (\<not> is_windows E \<longrightarrow>
        (\<exists>es. fst (process_streams E now cfg fs ce)
               = es @ [RedisDelete (buffer_key (dict_get cfg ''site'' PNone)
                                      (dict_get cfg ''stream_name'' (PStr ''prediction_visual''))),
                       Log (''Deleted Redis key: ''
                            @ buffer_key (dict_get cfg ''site'' PNone)
                                (dict_get cfg ''stream_name'' (PStr ''prediction_visual'')))]
               \<and> filter is_delete es = []))"
proof (intro conjI impI)
  show "filter is_delete (fst (process_single_stream E now url site sn notifications fs ce)) = []"
    by (rule process_single_stream_no_delete)
next
  show "filter is_delete (fst (process_streams E now cfg fs ce))
       = (if is_windows E then []
          else [RedisDelete (buffer_key (dict_get cfg ''site'' PNone)
                               (dict_get cfg ''stream_name'' (PStr ''prediction_visual'')))])"
    by (simp add: process_streams_def Let_def process_single_stream_no_delete is_delete_def
        split: sum.splits)
next
  assume "\<not> is_windows E"
  then show "\<exists>es. fst (process_streams E now cfg fs ce)
               = es @ [RedisDelete (buffer_key (dict_get cfg ''site'' PNone)
                                      (dict_get cfg ''stream_name'' (PStr ''prediction_visual''))),
                       Log (''Deleted Redis key: ''
                            @ buffer_key (dict_get cfg ''site'' PNone)
                                (dict_get cfg ''stream_name'' (PStr ''prediction_visual'')))]
               \<and> filter is_delete es = []"
    by (simp add: process_streams_def Let_def process_single_stream_no_delete split: sum.splits)
qed

theorem worker_deletes_key_at_termination_witness:
  "\<not> is_windows demo_env
   \<and> filter is_delete (fst (process_streams demo_env 1000.2 demo_config [night_frame] None))
       = [RedisDelete ''S_X'']"
proof -
  have h: "\<not> is_windows demo_env" by (simp add: demo_env_def)
  have k: "buffer_key (dict_get demo_config ''site'' PNone)
             (dict_get demo_config ''stream_name'' (PStr ''prediction_visual'')) = ''S_X''"
    by (simp add: buffer_key_def dict_get_def demo_config_def)
  from worker_deletes_key_at_termination [of demo_env "1000.2" "PStr ''rtsp://a''" "PStr ''S''"
      "PStr ''X''" "PDict [(''a'', ''en'')]" "[night_frame]" None demo_config] h k
  show ?thesis by simp
qed

text \<open>
  So deletions are not the reconciler's alone: a worker whose capture ends deletes its key.
\<close>

theorem worker_deletes_key_counterexample:
  "RedisDelete ''S_X'' \<in> set (fst (process_streams demo_env 1000.2 demo_config [night_frame] None))"
  by (simp add: process_streams_def demo_env_def demo_config_def Let_def buffer_key_def dict_get_def
      normalise_notifications_def)

subsection \<open>Quality selection\<close>

lemma first_available_Some:
  "first_available qs streams = Some url \<Longrightarrow>
   \<exists>pre q post. qs = pre @ q # post \<and> map_of streams q = Some url
       \<and> (\<forall>q' \<in> set pre. map_of streams q' = None)"
proof (induction qs)
  case Nil
  then show ?case by simp
next
  case (Cons a qs)
  show ?case
  proof (cases "map_of streams a")
    case None
    with Cons obtain pre q post where "qs = pre @ q # post" "map_of streams q = Some url"
      "\<forall>q' \<in> set pre. map_of streams q' = None" by auto
    then have "a # qs = (a # pre) @ q # post \<and> map_of streams q = Some url
       \<and> (\<forall>q' \<in> set (a # pre). map_of streams q' = None)" using None by simp
    then show ?thesis by blast
  next
    case (Some u)
    with Cons.prems have "a # qs = [] @ a # qs \<and> map_of streams a = Some url
       \<and> (\<forall>q' \<in> set []. map_of streams q' = None)" by simp
    then show ?thesis by blast
  qed
qed

lemma first_available_None:
  "first_available qs streams = None \<longleftrightarrow> (\<forall>q \<in> set qs. map_of streams q = None)"
  by (induction qs) (auto split: option.splits)

lemma preferred_high: "10 \<le> d \<Longrightarrow> preferred_qualities d = [''best'', ''1080p'', ''720p'', ''480p'', ''360p'', ''240p'']"
  by (simp add: preferred_qualities_def quality_cap_def quality_ladder_def)

lemma preferred_mid: "5 \<le> d \<Longrightarrow> d < 10 \<Longrightarrow> preferred_qualities d = [''720p'', ''480p'', ''360p'', ''240p'']"
  by (simp add: preferred_qualities_def quality_cap_def quality_ladder_def)

lemma preferred_low: "d < 5 \<Longrightarrow> preferred_qualities d = [''480p'', ''360p'', ''240p'']"
  by (simp add: preferred_qualities_def quality_cap_def quality_ladder_def)

text \<open>
  Claim C8, on the selection as the specification describes it. The variants tried are the
  whole ladder from 10 Mbps up, 720p and below from 5 Mbps up, 480p and below under
  5 Mbps; the URL returned is that of the first of them the source advertises, every
  better one within the cap being absent; nothing is returned exactly when none of them
  is advertised, as with no variants at all. The three sample selections give best, 720p
  and 480p.
\<close>

theorem quality_selection:
  "(select_quality_based_on_speed d streams = Some url \<longrightarrow>
      (\<exists>pre q post. preferred_qualities d = pre @ q # post \<and> map_of streams q = Some url
          \<and> (\<forall>q' \<in> set pre. map_of streams q' = None)))
   \<and> (select_quality_based_on_speed d streams = None
        \<longleftrightarrow> (\<forall>q \<in> set (preferred_qualities d). map_of streams q = None))
   \<and> preferred_qualities d =
        (if 10 \<le> d then [''best'', ''1080p'', ''720p'', ''480p'', ''360p'', ''240p'']
         else if 5 \<le> d then [''720p'', ''480p'', ''360p'', ''240p'']
         else [''480p'', ''360p'', ''240p''])
   \<and> select_quality_based_on_speed 20
        [(''best'', ''http://best.stream''), (''1080p'', ''http://1080p.stream''),
         (''720p'', ''http://720p.stream''), (''480p'', ''http://480p.stream'')]
        = Some ''http://best.stream''
   \<and> select_quality_based_on_speed 7
        [(''720p'', ''http://720p.stream''), (''480p'', ''http://480p.stream''),
         (''360p'', ''http://360p.stream'')]
        = Some ''http://720p.stream''
   \<and> select_quality_based_on_speed 3
        [(''480p'', ''http://480p.stream''), (''360p'', ''http://360p.stream''),
         (''240p'', ''http://240p.stream'')]
        = Some ''http://480p.stream''
   \<and> select_quality_based_on_speed d [] = None"
proof (intro conjI impI)
  assume "select_quality_based_on_speed d streams = Some url"
  then show "\<exists>pre q post. preferred_qualities d = pre @ q # post \<and> map_of streams q = Some url
          \<and> (\<forall>q' \<in> set pre. map_of streams q' = None)"
    unfolding select_quality_based_on_speed_def by (rule first_available_Some)
next
  show "select_quality_based_on_speed d streams = None
        \<longleftrightarrow> (\<forall>q \<in> set (preferred_qualities d). map_of streams q = None)"
    unfolding select_quality_based_on_speed_def by (rule first_available_None)
next
  show "preferred_qualities d =
        (if 10 \<le> d then [''best'', ''1080p'', ''720p'', ''480p'', ''360p'', ''240p'']
         else if 5 \<le> d then [''720p'', ''480p'', ''360p'', ''240p'']
         else [''480p'', ''360p'', ''240p''])"
    by (simp add: preferred_high preferred_mid preferred_low)
next
  show "select_quality_based_on_speed 20
        [(''best'', ''http://best.stream''), (''1080p'', ''http://1080p.stream''),
         (''720p'', ''http://720p.stream''), (''480p'', ''http://480p.stream'')]
        = Some ''http://best.stream''"
    by (simp add: select_quality_based_on_speed_def preferred_high)
next
  show "select_quality_based_on_speed 7
        [(''720p'', ''http://720p.stream''), (''480p'', ''http://480p.stream''),
         (''360p'', ''http://360p.stream'')]
        = Some ''http://720p.stream''"
    by (simp add: select_quality_based_on_speed_def preferred_mid)
next
  show "select_quality_based_on_speed 3
        [(''480p'', ''http://480p.stream''), (''360p'', ''http://360p.stream''),
         (''240p'', ''http://240p.stream'')]
        = Some ''http://480p.stream''"
    by (simp add: select_quality_based_on_speed_def preferred_low)
next
  show "select_quality_based_on_speed d [] = None"
    by (simp add: select_quality_based_on_speed_def first_available_None)
qed

theorem quality_selection_witness:
  "select_quality_based_on_speed 7 [(''1080p'', ''http://1080p.stream''), (''480p'', ''http://480p.stream'')]
     = Some ''http://480p.stream''
   \<and> (\<exists>pre q post. preferred_qualities 7 = pre @ q # post
         \<and> map_of [(''1080p'', ''http://1080p.stream''), (''480p'', ''http://480p.stream'')] q = Some ''http://480p.stream''
         \<and> (\<forall>q' \<in> set pre. map_of [(''1080p'', ''http://1080p.stream''), (''480p'', ''http://480p.stream'')] q' = None))
   \<and> select_quality_based_on_speed 3 [(''720p'', ''http://720p.stream'')] = None"
proof -
  have h: "select_quality_based_on_speed 7 [(''1080p'', ''http://1080p.stream''), (''480p'', ''http://480p.stream'')]
     = Some ''http://480p.stream''"
    by (simp add: select_quality_based_on_speed_def preferred_qualities_def quality_cap_def quality_ladder_def)
  have n: "\<forall>q \<in> set (preferred_qualities 3). map_of [(''720p'', ''http://720p.stream'')] q = None"
    by (simp add: preferred_qualities_def quality_cap_def quality_ladder_def)
  from quality_selection [of 7 "[(''1080p'', ''http://1080p.stream''), (''480p'', ''http://480p.stream'')]" "''http://480p.stream''"]
  have a: "\<exists>pre q post. preferred_qualities 7 = pre @ q # post
         \<and> map_of [(''1080p'', ''http://1080p.stream''), (''480p'', ''http://480p.stream'')] q = Some ''http://480p.stream''
         \<and> (\<forall>q' \<in> set pre. map_of [(''1080p'', ''http://1080p.stream''), (''480p'', ''http://480p.stream'')] q' = None)"
    using h by blast
  from quality_selection [of 3 "[(''720p'', ''http://720p.stream'')]"] n
  have b: "select_quality_based_on_speed 3 [(''720p'', ''http://720p.stream'')] = None" by blast
  show ?thesis using h a b by blast
qed

subsection \<open>A malformed record\<close>

lemma current_configs_of_no_url:
  assumes "\<forall>c \<in> set cfgs. \<forall>v. map_of c ''video_url'' = Some v \<longrightarrow> \<not> unhashable v"
    and "\<exists>c \<in> set cfgs. map_of c ''video_url'' = None"
  shows "current_configs_of cfgs acc = Inl (KeyError ''video_url'')"
  using assms
proof (induction cfgs arbitrary: acc)
  case Nil
  then show ?case by simp
next
  case (Cons a cfgs)
  show ?case
  proof (cases "map_of a ''video_url''")
    case None
    then show ?thesis by simp
  next
    case (Some u)
    with Cons.prems have h: "\<not> unhashable u"
      and rest: "\<exists>c \<in> set cfgs. map_of c ''video_url'' = None" by auto
    from Cons.IH [OF _ rest] Cons.prems(1) show ?thesis using Some h by simp
  qed
qed

lemma current_configs_of_ok:
  assumes "\<forall>c \<in> set cfgs. \<forall>v. map_of c ''video_url'' = Some v \<longrightarrow> \<not> unhashable v"
    and "\<forall>c \<in> set cfgs. map_of c ''video_url'' \<noteq> None"
  shows "\<exists>cc. current_configs_of cfgs acc = Inr cc"
  using assms
proof (induction cfgs arbitrary: acc)
  case Nil
  then show ?case by simp
next
  case (Cons a cfgs)
  from Cons.prems obtain u where u: "map_of a ''video_url'' = Some u" by auto
  with Cons.prems have h: "\<not> unhashable u" by auto
  from Cons.IH [of "AList.update u a acc"] Cons.prems show ?case using u h by simp
qed

lemma current_keys_of_no_site:
  "\<exists>c \<in> set cfgs. map_of c ''site'' = None \<Longrightarrow> current_keys_of cfgs = Inl (KeyError ''site'')"
proof (induction cfgs)
  case Nil
  then show ?case by simp
next
  case (Cons a cfgs)
  show ?case
  proof (cases "map_of a ''site''")
    case None
    then show ?thesis by simp
  next
    case (Some u)
    with Cons.prems have "\<exists>c \<in> set cfgs. map_of c ''site'' = None" by auto
    from Cons.IH [OF this] show ?thesis using Some by simp
  qed
qed

lemma distinct_current_configs_of:
  "distinct (map fst acc) \<Longrightarrow> current_configs_of cfgs acc = Inr cc \<Longrightarrow> distinct (map fst cc)"
proof (induction cfgs arbitrary: acc)
  case Nil
  then show ?case by simp
next
  case (Cons a cfgs)
  from Cons.prems(2) obtain u where u: "map_of a ''video_url'' = Some u"
    and r: "current_configs_of cfgs (AList.update u a acc) = Inr cc"
    by (auto split: option.splits if_splits)
  have "distinct (map fst (AList.update u a acc))" using Cons.prems(1) by (rule distinct_update)
  from Cons.IH [OF this r] show ?case .
qed

text \<open>
  Claim C4, as the code has it. A record that lacks its source URL or its site is not
  skipped: the source URLs being hashable, as strings are, the pass raises
  \<^verbatim>\<open>KeyError\<close> while the desired state is read, for \<^verbatim>\<open>video_url\<close> when some record
  lacks it and otherwise for \<^verbatim>\<open>site\<close>; the actual state is left as it was and there
  is no effect at all, so no record of the file is reconciled.
\<close>

theorem malformed_record_aborts_pass:
  "(\<forall>c \<in> set cfgs. \<forall>v. map_of c ''video_url'' = Some v \<longrightarrow> \<not> unhashable v) \<longrightarrow>
     ((\<exists>c \<in> set cfgs. map_of c ''video_url'' = None) \<longrightarrow>
        reload_configurations E cfgs s = (s, [], Some (KeyError ''video_url'')))
     \<and> ((\<forall>c \<in> set cfgs. map_of c ''video_url'' \<noteq> None)
          \<and> (\<exists>c \<in> set cfgs. map_of c ''site'' = None) \<longrightarrow>
        reload_configurations E cfgs s = (s, [], Some (KeyError ''site'')))"
proof (intro conjI impI)
  assume h: "\<forall>c \<in> set cfgs. \<forall>v. map_of c ''video_url'' = Some v \<longrightarrow> \<not> unhashable v"
    and m: "\<exists>c \<in> set cfgs. map_of c ''video_url'' = None"
  from current_configs_of_no_url [OF h m, of "[]"]
  show "reload_configurations E cfgs s = (s, [], Some (KeyError ''video_url''))"
    by (simp add: reload_configurations_def)
next
  assume h: "\<forall>c \<in> set cfgs. \<forall>v. map_of c ''video_url'' = Some v \<longrightarrow> \<not> unhashable v"
    and m: "(\<forall>c \<in> set cfgs. map_of c ''video_url'' \<noteq> None)
          \<and> (\<exists>c \<in> set cfgs. map_of c ''site'' = None)"
  from current_configs_of_ok [OF h, of "[]"] m obtain cc where
    cc: "current_configs_of cfgs [] = Inr cc" by blast
  from current_keys_of_no_site [of cfgs] m
  have "current_keys_of cfgs = Inl (KeyError ''site'')" by blast
  with cc show "reload_configurations E cfgs s = (s, [], Some (KeyError ''site''))"
    by (simp add: reload_configurations_def)
qed

theorem malformed_record_aborts_pass_witness:
  "reload_configurations demo_env [bad_config, demo_config] one_worker_state
     = (one_worker_state, [], Some (KeyError ''site''))
   \<and> reload_configurations demo_env [demo_config, [(''site'', PStr ''S'')]] one_worker_state
     = (one_worker_state, [], Some (KeyError ''video_url''))"
proof -
  have h1: "\<forall>c \<in> set [bad_config, demo_config]. \<forall>v. map_of c ''video_url'' = Some v \<longrightarrow> \<not> unhashable v"
    "\<forall>c \<in> set [bad_config, demo_config]. map_of c ''video_url'' \<noteq> None"
    "\<exists>c \<in> set [bad_config, demo_config]. map_of c ''site'' = None"
    by (simp_all add: bad_config_def demo_config_def)
  have h2: "\<forall>c \<in> set [demo_config, [(''site'', PStr ''S'')]].
              \<forall>v. map_of c ''video_url'' = Some v \<longrightarrow> \<not> unhashable v"
    "\<exists>c \<in> set [demo_config, [(''site'', PStr ''S'')]]. map_of c ''video_url'' = None"
    by (simp_all add: demo_config_def)
  from malformed_record_aborts_pass [of "[bad_config, demo_config]" demo_env one_worker_state] h1
  have a: "reload_configurations demo_env [bad_config, demo_config] one_worker_state
     = (one_worker_state, [], Some (KeyError ''site''))" by blast
  from malformed_record_aborts_pass [of "[demo_config, [(''site'', PStr ''S'')]]" demo_env
      one_worker_state] h2
  have b: "reload_configurations demo_env [demo_config, [(''site'', PStr ''S'')]] one_worker_state
     = (one_worker_state, [], Some (KeyError ''video_url''))" by blast
  show ?thesis using a b by blast
qed

text \<open>
  With a record that has no site next to a well-formed one, the pass raises and the
  well-formed record gets no worker.
\<close>

theorem malformed_record_counterexample:
  "reload_configurations demo_env [bad_config, demo_config] empty_state
     = (empty_state, [], Some (KeyError ''site''))
   \<and> running_processes (fst (reload_configurations demo_env [bad_config, demo_config] empty_state)) = []
   \<and> map_of demo_config ''site'' \<noteq> None \<and> map_of demo_config ''model_key'' \<noteq> None"
  by (simp add: reload_configurations_def bad_config_def demo_config_def empty_state_def)

subsection \<open>Deleting the buffer key of a stopped worker\<close>














subsection \<open>An expired record in the desired state\<close>

lemma current_configs_of_append:
  "current_configs_of (xs @ zs) acc =
     (case current_configs_of xs acc of Inl e \<Rightarrow> Inl e | Inr a \<Rightarrow> current_configs_of zs a)"
  by (induction xs arbitrary: acc) (auto split: option.splits)

lemma current_configs_of_fresh:
  "\<forall>c \<in> set xs. map_of c ''video_url'' \<noteq> Some u \<Longrightarrow> u \<notin> fst ` set acc
   \<Longrightarrow> current_configs_of xs acc = Inr a \<Longrightarrow> u \<notin> fst ` set a"
proof (induction xs arbitrary: acc)
  case Nil
  then show ?case by simp
next
  case (Cons x xs)
  from Cons.prems(3) obtain v where v: "map_of x ''video_url'' = Some v"
    and r: "current_configs_of xs (AList.update v x acc) = Inr a"
    by (auto split: option.splits if_splits)
  have "v \<noteq> u" using Cons.prems(1) v by auto
  then have "u \<notin> fst ` set (AList.update v x acc)" using Cons.prems(2) by (simp add: dom_update)
  from Cons.IH [OF _ this r] Cons.prems(1) show ?case by simp
qed

lemma current_configs_of_extra:
  assumes "\<forall>c \<in> set zs. map_of c ''video_url'' \<noteq> Some u"
  shows "map_of acc2 u = Some r \<Longrightarrow>
     (case current_configs_of zs acc2 of
        Inl e \<Rightarrow> current_configs_of zs (AList.delete u acc2) = Inl e
      | Inr cc2 \<Rightarrow> current_configs_of zs (AList.delete u acc2) = Inr (AList.delete u cc2)
                   \<and> map_of cc2 u = Some r)"
  using assms
proof (induction zs arbitrary: acc2)
  case Nil
  then show ?case by simp
next
  case (Cons z zs)
  show ?case
  proof (cases "map_of z ''video_url''")
    case None
    then show ?thesis by simp
  next
    case (Some v)
    then have vu: "v \<noteq> u" using Cons.prems(2) by auto
    show ?thesis
    proof (cases "unhashable v")
      case True
      with Some show ?thesis by simp
    next
      case False
      have m: "map_of (AList.update v z acc2) u = Some r"
        using Cons.prems(1) vu by (simp add: update_conv')
      have d: "AList.delete u (AList.update v z acc2) = AList.update v z (AList.delete u acc2)"
        using vu by (simp add: delete_update)
      from Cons.IH [OF m] Cons.prems(2) show ?thesis using Some False d
        by (auto split: sum.splits)
    qed
  qed
qed

lemma current_keys_of_Inr_iff:
  "(\<exists>ks. current_keys_of zs = Inr ks) \<longleftrightarrow> (\<forall>c \<in> set zs. map_of c ''site'' \<noteq> None)"
  by (induction zs) (auto split: option.splits sum.splits)

lemma current_keys_of_error:
  "current_keys_of zs = Inl e \<Longrightarrow> e = KeyError ''site''"
  by (induction zs) (auto split: option.splits sum.splits)

lemma delete_old_key_no_error: "\<not> is_windows E \<Longrightarrow> snd (delete_old_key E keys k) = None"
  by (simp add: delete_old_key_def)

lemma stop_or_restart_extra:
  assumes nw: "\<not> is_windows E"
    and same: "\<forall>v. v \<noteq> u \<longrightarrow> map_of cc2 v = map_of cc1 v"
    and c1: "map_of cc1 u = None" and c2: "map_of cc2 u = Some r"
    and ex: "is_expired E (dict_get r ''expire_date'' PNone)"
  shows "pass_result (stop_or_restart E cc2 keys2 v s) = pass_result (stop_or_restart E cc1 keys1 v s)"
proof (cases "v = u")
  case True
  show ?thesis
    unfolding True using c1 c2 ex nw
    by (auto simp add: pass_result_def stop_or_restart_def Let_def delete_old_key_no_error
        split: option.splits)
next
  case False
  then have "map_of cc2 v = map_of cc1 v" using same by simp
  then show ?thesis using nw
    by (simp add: pass_result_def stop_or_restart_def Let_def delete_old_key_no_error split_beta
        split: option.splits sum.splits)
qed

lemma stop_loop_extra:
  assumes nw: "\<not> is_windows E"
    and same: "\<forall>v. v \<noteq> u \<longrightarrow> map_of cc2 v = map_of cc1 v"
    and c1: "map_of cc1 u = None" and c2: "map_of cc2 u = Some r"
    and ex: "is_expired E (dict_get r ''expire_date'' PNone)"
  shows "pass_result (stop_loop E cc2 keys2 urls s) = pass_result (stop_loop E cc1 keys1 urls s)"
proof (induction urls arbitrary: s)
  case Nil
  then show ?case by (simp add: pass_result_def)
next
  case (Cons v urls)
  obtain s2 es2 r2 where a: "stop_or_restart E cc2 keys2 v s = (s2, es2, r2)"
    by (cases "stop_or_restart E cc2 keys2 v s")
  obtain s1 es1 r1 where b: "stop_or_restart E cc1 keys1 v s = (s1, es1, r1)"
    by (cases "stop_or_restart E cc1 keys1 v s")
  from stop_or_restart_extra [OF assms, of keys2 v s keys1] a b
  have eq: "s2 = s1" "r2 = r1" by (simp_all add: pass_result_def)
  show ?case
  proof (cases r1)
    case (Some x)
    with a b eq show ?thesis by (simp add: pass_result_def)
  next
    case None
    from Cons.IH [of s1] show ?thesis using a b eq None
      by (auto simp add: pass_result_def split: prod.splits)
  qed
qed

lemma start_loop_extra:
  assumes "\<forall>c. (u, c) \<in> set items \<longrightarrow> is_expired E (dict_get c ''expire_date'' PNone)"
  shows "pass_result (start_loop E items s) = pass_result (start_loop E (AList.delete u items) s)"
  using assms
proof (induction items arbitrary: s)
  case Nil
  then show ?case by simp
next
  case (Cons a items)
  have ih: "pass_result (start_loop E items s') = pass_result (start_loop E (AList.delete u items) s')" for s'
    using Cons.IH [of s'] Cons.prems by simp
  show ?case
  proof (cases "fst a = u")
    case True
    then have "is_expired E (dict_get (snd a) ''expire_date'' PNone)"
      using Cons.prems by (cases a) auto
    then have "start_new E a s = (s, [Log (''Skip expired configuration: '' @ py_str (fst a))], None)"
      by (simp add: start_new_def Let_def)
    then show ?thesis using ih [of s] True
      by (cases a) (auto simp add: pass_result_def split: prod.splits)
  next
    case False
    obtain s1 es1 r1 where st: "start_new E a s = (s1, es1, r1)" by (cases "start_new E a s")
    show ?thesis
    proof (cases r1)
      case (Some x)
      with st False show ?thesis by (cases a) (auto simp add: pass_result_def)
    next
      case None
      with st False ih [of s1] show ?thesis
        by (cases a) (auto simp add: pass_result_def split: prod.splits)
    qed
  qed
qed


lemma reload_pass_result:
  "pass_result (reload_configurations E cfgs s) =
     (case current_configs_of cfgs [] of
        Inl e \<Rightarrow> (s, Some e)
      | Inr cc \<Rightarrow>
          (case current_keys_of cfgs of
             Inl e \<Rightarrow> (s, Some e)
           | Inr keys \<Rightarrow>
               (let x = pass_result (stop_loop E cc keys (map fst (running_processes s)) s)
                in if snd x \<noteq> None then x else pass_result (start_loop E cc (fst x)))))"
  by (auto simp add: reload_configurations_def pass_result_def Let_def
      split: sum.splits prod.splits option.splits)

text \<open>
  Claim C3. Let a configuration file be extended, at any place, by one record that is
  expired, carries a site and a source URL no other record of the file has. On a platform
  other than Windows, a reconciliation pass on the extended file leaves the same running
  workers, the same recorded fingerprints and the same outcome as the pass on the
  original file, from every actual state: the expired record starts and stops nothing.
\<close>

theorem expired_record_leaves_actual_state:
  assumes nw: "\<not> is_windows E"
    and url: "map_of r ''video_url'' = Some u" and hashable: "\<not> unhashable u"
    and site: "map_of r ''site'' \<noteq> None"
    and ex: "is_expired E (dict_get r ''expire_date'' PNone)"
    and fresh: "\<forall>c \<in> set (xs @ ys). map_of c ''video_url'' \<noteq> Some u"
  shows "pass_result (reload_configurations E (xs @ r # ys) s)
       = pass_result (reload_configurations E (xs @ ys) s)"
proof (cases "current_configs_of xs []")
  case (Inl e)
  then show ?thesis
    by (simp add: reload_pass_result current_configs_of_append)
next
  case (Inr a)
  have fa: "u \<notin> fst ` set a"
    using current_configs_of_fresh [of xs u "[]" a] fresh Inr by simp
  let ?acc2 = "AList.update u r a"
  have d: "AList.delete u ?acc2 = a" using fa by (simp add: delete_update_same)
  have m: "map_of ?acc2 u = Some r" by (simp add: update_conv')
  have c2: "current_configs_of (xs @ r # ys) [] = current_configs_of ys ?acc2"
    using Inr url hashable by (simp add: current_configs_of_append)
  have c1: "current_configs_of (xs @ ys) [] = current_configs_of ys a"
    using Inr by (simp add: current_configs_of_append)
  have fy: "\<forall>c \<in> set ys. map_of c ''video_url'' \<noteq> Some u" using fresh by simp
  note extra = current_configs_of_extra [OF fy m, unfolded d]
  show ?thesis
  proof (cases "current_configs_of ys ?acc2")
    case (Inl e)
    with extra c1 c2 show ?thesis by (simp add: reload_pass_result)
  next
    case cc2: (Inr cc2)
    with extra have cc1: "current_configs_of ys a = Inr (AList.delete u cc2)"
      and look: "map_of cc2 u = Some r" by simp_all
    have ki: "(\<exists>ks. current_keys_of (xs @ r # ys) = Inr ks) \<longleftrightarrow> (\<exists>ks. current_keys_of (xs @ ys) = Inr ks)"
      unfolding current_keys_of_Inr_iff using site by auto
    show ?thesis
    proof (cases "current_keys_of (xs @ r # ys)")
      case (Inl e2)
      then obtain e1 where e1: "current_keys_of (xs @ ys) = Inl e1"
        using ki by (cases "current_keys_of (xs @ ys)") auto
      have "e2 = KeyError ''site''" "e1 = KeyError ''site''"
        using Inl e1 current_keys_of_error by blast+
      with Inl e1 c1 c2 cc1 cc2 show ?thesis by (simp add: reload_pass_result)
    next
      case k2: (Inr keys2)
      then obtain keys1 where k1: "current_keys_of (xs @ ys) = Inr keys1"
        using ki by auto
      have dist: "distinct (map fst cc2)"
        using distinct_current_configs_of [of "[]" "xs @ r # ys" cc2] c2 cc2 by simp
      have only: "\<forall>c. (u, c) \<in> set cc2 \<longrightarrow> is_expired E (dict_get c ''expire_date'' PNone)"
      proof (intro allI impI)
        fix c assume "(u, c) \<in> set cc2"
        with dist have "map_of cc2 u = Some c" by (rule map_of_is_SomeI)
        with look have "c = r" by simp
        with ex show "is_expired E (dict_get c ''expire_date'' PNone)" by simp
      qed
      have same: "\<forall>v. v \<noteq> u \<longrightarrow> map_of cc2 v = map_of (AList.delete u cc2) v" by simp
      have none: "map_of (AList.delete u cc2) u = None" by (simp add: delete_conv')
      have stop: "pass_result (stop_loop E cc2 keys2 urls s) 
          = pass_result (stop_loop E (AList.delete u cc2) keys1 urls s)" for urls
        by (rule stop_loop_extra [OF nw same none look ex])
      have start: "pass_result (start_loop E cc2 s1)
          = pass_result (start_loop E (AList.delete u cc2) s1)" for s1
        by (rule start_loop_extra [OF only])
      show ?thesis
        using c1 c2 cc1 cc2 k1 k2 stop start
        by (simp add: reload_pass_result Let_def)
    qed
  qed
qed

theorem expired_record_leaves_actual_state_witness:
  "\<not> is_windows demo_env
   \<and> is_expired demo_env (dict_get expired_config ''expire_date'' PNone)
   \<and> pass_result (reload_configurations demo_env [shared_key_config, expired_config] one_worker_state)
     = pass_result (reload_configurations demo_env [shared_key_config] one_worker_state)"
proof -
  have h: "\<not> is_windows demo_env" "map_of expired_config ''video_url'' = Some (PStr ''rtsp://old'')"
    "\<not> unhashable (PStr ''rtsp://old'')" "map_of expired_config ''site'' \<noteq> None"
    "is_expired demo_env (dict_get expired_config ''expire_date'' PNone)"
    "\<forall>c \<in> set ([shared_key_config] @ []). map_of c ''video_url'' \<noteq> Some (PStr ''rtsp://old'')"
    by (simp_all add: demo_env_def expired_config_def dict_get_def shared_key_config_def)
  from expired_record_leaves_actual_state [OF h, of one_worker_state] h(1,5)
  show ?thesis by simp
qed

subsection \<open>The configuration fingerprint\<close>

lemma hexdigit_inj:
  assumes "a < 16" "b < 16" "hexdigit a = hexdigit b"
  shows "a = b"
proof -
  have "48 + a < 256" "87 + a < 256" "48 + b < 256" "87 + b < 256" using assms by simp_all
  then show ?thesis using assms
    by (auto simp add: hexdigit_def char_of_eq_iff take_bit_eq_mod split: if_splits)
qed

lemma hex_pair_inj:
  assumes "hexdigit (of_char c div 16) = hexdigit (of_char d div 16)"
    and "hexdigit (of_char c mod 16) = hexdigit (of_char d mod 16)"
  shows "c = d"
proof -
  have lt: "(of_char c :: nat) < 256" "(of_char d :: nat) < 256" by simp_all
  then have "(of_char c :: nat) div 16 < 16" "(of_char d :: nat) div 16 < 16" by arith+
  with assms(1) have 1: "(of_char c :: nat) div 16 = of_char d div 16" by (rule hexdigit_inj [rotated 2])
  have "(of_char c :: nat) mod 16 < 16" "(of_char d :: nat) mod 16 < 16" by simp_all
  with assms(2) have 2: "(of_char c :: nat) mod 16 = of_char d mod 16" by (rule hexdigit_inj [rotated 2])
  from 1 2 have "(of_char c :: nat) = of_char d" by (metis div_mult_mod_eq)
  then show ?thesis by simp
qed

lemma repr_char_nonempty: "repr_char q c \<noteq> []"
  by (simp add: repr_char_def)

lemma repr_char_hd: "q = squote \<or> q = dquote \<Longrightarrow> hd (repr_char q c) \<noteq> q"
  by (auto simp add: repr_char_def)

lemma repr_char_prefix_free:
  assumes q: "q = squote \<or> q = dquote"
    and eq: "repr_char q c @ X = repr_char q d @ Y"
  shows "c = d \<and> X = Y"
  using q eq
  by (auto simp add: repr_char_def split: if_splits dest: hex_pair_inj)


lemma repr_body_prefix_free:
  assumes q: "q = squote \<or> q = dquote"
  shows "concat (map (repr_char q) s) @ q # r1 = concat (map (repr_char q) t) @ q # r2
     \<Longrightarrow> s = t \<and> r1 = r2"
proof (induction s arbitrary: t)
  case Nil
  show ?case
  proof (cases t)
    case Nil
    with Nil.prems show ?thesis by simp
  next
    case (Cons d t')
    obtain x xs where x: "repr_char q d = x # xs"
      using repr_char_nonempty [of q d] by (cases "repr_char q d") auto
    with repr_char_hd [OF q, of d] have "x \<noteq> q" by simp
    with Nil.prems Cons x show ?thesis by simp
  qed
next
  case (Cons c s')
  show ?case
  proof (cases t)
    case Nil
    obtain x xs where x: "repr_char q c = x # xs"
      using repr_char_nonempty [of q c] by (cases "repr_char q c") auto
    with repr_char_hd [OF q, of c] have "x \<noteq> q" by simp
    with Cons.prems Nil x show ?thesis by simp
  next
    case (Cons d t')
    with Cons.prems have
      "repr_char q c @ (concat (map (repr_char q) s') @ q # r1)
       = repr_char q d @ (concat (map (repr_char q) t') @ q # r2)" by simp
    from repr_char_prefix_free [OF q this]
    have cd: "c = d" and rest: "concat (map (repr_char q) s') @ q # r1
       = concat (map (repr_char q) t') @ q # r2" by simp_all
    from Cons.IH [OF rest] cd Cons show ?thesis by simp
  qed
qed

lemma repr_quote_cases: "repr_quote s = squote \<or> repr_quote s = dquote"
  by (simp add: repr_quote_def)

lemma repr_str_prefix_free:
  assumes "repr_str s @ r1 = repr_str t @ r2"
  shows "s = t \<and> r1 = r2"
proof -
  from assms have both: "repr_quote s = repr_quote t
      \<and> concat (map (repr_char (repr_quote s)) s) @ repr_quote s # r1
        = concat (map (repr_char (repr_quote t)) t) @ repr_quote t # r2"
    by (auto simp add: repr_str_def Let_def)
  then have e1: "repr_quote s = repr_quote t"
    and e2: "concat (map (repr_char (repr_quote s)) s) @ repr_quote s # r1
        = concat (map (repr_char (repr_quote t)) t) @ repr_quote t # r2"
    by blast+
  from e2 have body: "concat (map (repr_char (repr_quote t)) s) @ repr_quote t # r1
        = concat (map (repr_char (repr_quote t)) t) @ repr_quote t # r2"
    unfolding e1 .
  from repr_body_prefix_free [OF repr_quote_cases [of t] body]
  show ?thesis .
qed

lemma repr_str_hd: "\<exists>x xs. repr_str s = x # xs \<and> (x = squote \<or> x = dquote)"
  using repr_quote_cases [of s] by (simp add: repr_str_def Let_def)

lemma join_items: "join '', '' (map repr_item d) = items_text d"
proof (induction d)
  case Nil
  then show ?case by simp
next
  case (Cons kv d)
  then show ?case by (cases d) simp_all
qed

lemma repr_item_prefix_free:
  assumes "repr_item a @ r1 = repr_item b @ r2"
  shows "a = b \<and> r1 = r2"
proof -
  from assms have "repr_str (fst a) @ ('': '' @ repr_str (snd a) @ r1)
      = repr_str (fst b) @ ('': '' @ repr_str (snd b) @ r2)"
    by (simp add: repr_item_def)
  from repr_str_prefix_free [OF this]
  have 1: "fst a = fst b" and "repr_str (snd a) @ r1 = repr_str (snd b) @ r2" by simp_all
  from repr_str_prefix_free [OF this(2)] 1 show ?thesis by (simp add: prod_eq_iff)
qed

lemma repr_item_hd: "\<exists>x xs. repr_item a = x # xs \<and> (x = squote \<or> x = dquote)"
  using repr_str_hd [of "fst a"] by (auto simp add: repr_item_def)

lemma items_text_prefix_free:
  "items_text d @ CHR ''}'' # r1 = items_text e @ CHR ''}'' # r2 \<Longrightarrow> d = e \<and> r1 = r2"
proof (induction d arbitrary: e)
  case Nil
  show ?case
  proof (cases e)
    case Nil
    with Nil.prems show ?thesis by simp
  next
    case (Cons b e')
    obtain x xs where "repr_item b = x # xs" "x = squote \<or> x = dquote"
      using repr_item_hd [of b] by blast
    with Nil.prems Cons show ?thesis by auto
  qed
next
  case (Cons a d')
  show ?case
  proof (cases e)
    case Nil
    obtain x xs where "repr_item a = x # xs" "x = squote \<or> x = dquote"
      using repr_item_hd [of a] by blast
    with Cons.prems Nil show ?thesis by auto
  next
    case e: (Cons b e')
    let ?ta = "(if d' = [] then [] else '', '' @ items_text d') @ CHR ''}'' # r1"
    let ?tb = "(if e' = [] then [] else '', '' @ items_text e') @ CHR ''}'' # r2"
    from Cons.prems e have "repr_item a @ ?ta = repr_item b @ ?tb" by simp
    from repr_item_prefix_free [OF this] have ab: "a = b" and t: "?ta = ?tb" by simp_all
    show ?thesis
    proof (cases "d' = []")
      case True
      with t have "e' = []" by (auto split: if_splits)
      with True t ab e show ?thesis by simp
    next
      case False
      with t have ne: "e' \<noteq> []" by (auto split: if_splits)
      with False t have "items_text d' @ CHR ''}'' # r1 = items_text e' @ CHR ''}'' # r2" by simp
      from Cons.IH [OF this] ab e show ?thesis by simp
    qed
  qed
qed

lemma repr_dict_prefix_free:
  assumes "repr_dict d @ r1 = repr_dict e @ r2"
  shows "d = e \<and> r1 = r2"
proof -
  from assms have "items_text d @ CHR ''}'' # r1 = items_text e @ CHR ''}'' # r2"
    by (simp add: repr_dict_def join_items)
  then show ?thesis by (rule items_text_prefix_free)
qed

lemma hd_py_repr:
  "hd (py_repr v @ r) =
     (case v of PNone \<Rightarrow> CHR ''N'' | PBool b \<Rightarrow> (if b then CHR ''T'' else CHR ''F'')
      | PStr s \<Rightarrow> repr_quote s | PDict d \<Rightarrow> CHR ''{'')"
  by (cases v) (simp_all add: repr_str_def repr_dict_def Let_def)

lemma py_repr_prefix_free:
  assumes "py_repr v @ r1 = py_repr w @ r2"
  shows "v = w \<and> r1 = r2"
proof -
  from assms have "hd (py_repr v @ r1) = hd (py_repr w @ r2)" by simp
  then have hd_eq:
    "(case v of PNone \<Rightarrow> CHR ''N'' | PBool b \<Rightarrow> (if b then CHR ''T'' else CHR ''F'')
      | PStr s \<Rightarrow> repr_quote s | PDict d \<Rightarrow> CHR ''{'')
     = (case w of PNone \<Rightarrow> CHR ''N'' | PBool b \<Rightarrow> (if b then CHR ''T'' else CHR ''F'')
      | PStr s \<Rightarrow> repr_quote s | PDict d \<Rightarrow> CHR ''{'')"
    by (simp only: hd_py_repr)
  show ?thesis
  proof (cases v)
    case PNone
    show ?thesis
    proof (cases w)
      case PNone
      with \<open>v = PNone\<close> assms show ?thesis by simp
    next
      case (PBool b)
      with \<open>v = PNone\<close> hd_eq show ?thesis by (simp split: if_splits)
    next
      case (PStr t)
      with \<open>v = PNone\<close> hd_eq repr_quote_cases [of t] show ?thesis by auto
    next
      case (PDict e)
      with \<open>v = PNone\<close> hd_eq show ?thesis by simp
    qed
  next
    case vb: (PBool b)
    show ?thesis
    proof (cases w)
      case PNone
      with vb hd_eq show ?thesis by (simp split: if_splits)
    next
      case (PBool b')
      with vb assms show ?thesis by (cases b; cases b'; simp)
    next
      case (PStr t)
      with vb hd_eq repr_quote_cases [of t] show ?thesis by (auto split: if_splits)
    next
      case (PDict e)
      with vb hd_eq show ?thesis by (simp split: if_splits)
    qed
  next
    case vs: (PStr s)
    show ?thesis
    proof (cases w)
      case PNone
      with vs hd_eq repr_quote_cases [of s] show ?thesis by auto
    next
      case (PBool b')
      with vs hd_eq repr_quote_cases [of s] show ?thesis by (auto split: if_splits)
    next
      case (PStr t)
      with vs assms repr_str_prefix_free [of s r1 t r2] show ?thesis by simp
    next
      case (PDict e)
      with vs hd_eq repr_quote_cases [of s] show ?thesis by auto
    qed
  next
    case vd: (PDict d)
    show ?thesis
    proof (cases w)
      case PNone
      with vd hd_eq show ?thesis by simp
    next
      case (PBool b')
      with vd hd_eq show ?thesis by (simp split: if_splits)
    next
      case (PStr t)
      with vd hd_eq repr_quote_cases [of t] show ?thesis by auto
    next
      case (PDict e)
      with vd assms repr_dict_prefix_free [of d r1 e r2] show ?thesis by simp
    qed
  qed
qed

lemma field_step:
  assumes "K @ py_repr v @ R1 = K @ py_repr w @ R2"
  shows "v = w \<and> R1 = R2"
proof -
  from assms have "py_repr v @ R1 = py_repr w @ R2" by simp
  then show ?thesis by (rule py_repr_prefix_free)
qed

lemma fingerprint_text_inj:
  assumes "K1 @ py_repr v1 @ K2 @ py_repr v2 @ K3 @ py_repr v3 @ K4 @ py_repr v4
             @ K5 @ py_repr v5 @ K6 @ py_repr v6 @ K7
         = K1 @ py_repr w1 @ K2 @ py_repr w2 @ K3 @ py_repr w3 @ K4 @ py_repr w4
             @ K5 @ py_repr w5 @ K6 @ py_repr w6 @ K7"
  shows "v1 = w1 \<and> v2 = w2 \<and> v3 = w3 \<and> v4 = w4 \<and> v5 = w5 \<and> v6 = w6"
proof -
  from field_step [OF assms] have 1: "v1 = w1"
    and r1: "K2 @ py_repr v2 @ K3 @ py_repr v3 @ K4 @ py_repr v4 @ K5 @ py_repr v5 @ K6 @ py_repr v6 @ K7
           = K2 @ py_repr w2 @ K3 @ py_repr w3 @ K4 @ py_repr w4 @ K5 @ py_repr w5 @ K6 @ py_repr w6 @ K7"
    by simp_all
  from field_step [OF r1] have 2: "v2 = w2"
    and r2: "K3 @ py_repr v3 @ K4 @ py_repr v4 @ K5 @ py_repr v5 @ K6 @ py_repr v6 @ K7
           = K3 @ py_repr w3 @ K4 @ py_repr w4 @ K5 @ py_repr w5 @ K6 @ py_repr w6 @ K7"
    by simp_all
  from field_step [OF r2] have 3: "v3 = w3"
    and r3: "K4 @ py_repr v4 @ K5 @ py_repr v5 @ K6 @ py_repr v6 @ K7
           = K4 @ py_repr w4 @ K5 @ py_repr w5 @ K6 @ py_repr w6 @ K7"
    by simp_all
  from field_step [OF r3] have 4: "v4 = w4"
    and r4: "K5 @ py_repr v5 @ K6 @ py_repr v6 @ K7 = K5 @ py_repr w5 @ K6 @ py_repr w6 @ K7"
    by simp_all
  from field_step [OF r4] have 5: "v5 = w5"
    and r5: "K6 @ py_repr v6 @ K7 = K6 @ py_repr w6 @ K7"
    by simp_all
  from field_step [OF r5] have 6: "v6 = w6" by simp
  from 1 2 3 4 5 6 show ?thesis by simp
qed

lemma compute_config_hash_Inr:
  assumes "compute_config_hash c = Inr h"
  shows "\<exists>v1 v2 v3 v5 v6.
     map_of c ''video_url'' = Some v1 \<and> map_of c ''model_key'' = Some v2
     \<and> map_of c ''site'' = Some v3 \<and> map_of c ''notifications'' = Some v5
     \<and> map_of c ''detect_with_server'' = Some v6
     \<and> h = (''{'' @ repr_str ''video_url'' @ '': '') @ py_repr v1
         @ ('', '' @ repr_str ''model_key'' @ '': '') @ py_repr v2
         @ ('', '' @ repr_str ''site'' @ '': '') @ py_repr v3
         @ ('', '' @ repr_str ''stream_name'' @ '': '')
         @ py_repr (dict_get c ''stream_name'' (PStr ''prediction_visual''))
         @ ('', '' @ repr_str ''notifications'' @ '': '') @ py_repr v5
         @ ('', '' @ repr_str ''detect_with_server'' @ '': '') @ py_repr v6
         @ ''}''"
  using assms
  by (auto simp add: compute_config_hash_def Let_def split: option.splits)

lemma compute_config_hash_fields:
  assumes "fingerprint_fields c1 = fingerprint_fields c2"
  shows "compute_config_hash c1 = compute_config_hash c2"
proof -
  from assms have "map_of c1 ''video_url'' = map_of c2 ''video_url''"
    "map_of c1 ''model_key'' = map_of c2 ''model_key''"
    "map_of c1 ''site'' = map_of c2 ''site''"
    "dict_get c1 ''stream_name'' (PStr ''prediction_visual'')
       = dict_get c2 ''stream_name'' (PStr ''prediction_visual'')"
    "map_of c1 ''notifications'' = map_of c2 ''notifications''"
    "map_of c1 ''detect_with_server'' = map_of c2 ''detect_with_server''"
    by (simp_all add: fingerprint_fields_def)
  then show ?thesis
    unfolding compute_config_hash_def by (simp only:)
qed

lemma compute_config_hash_inj:
  assumes h1: "compute_config_hash c1 = Inr h" and h2: "compute_config_hash c2 = Inr h"
  shows "fingerprint_fields c1 = fingerprint_fields c2"
proof -
  from compute_config_hash_Inr [OF h1] obtain v1 v2 v3 v5 v6 where
    v: "map_of c1 ''video_url'' = Some v1" "map_of c1 ''model_key'' = Some v2"
      "map_of c1 ''site'' = Some v3" "map_of c1 ''notifications'' = Some v5"
      "map_of c1 ''detect_with_server'' = Some v6"
    and hv: "h = (''{'' @ repr_str ''video_url'' @ '': '') @ py_repr v1
         @ ('', '' @ repr_str ''model_key'' @ '': '') @ py_repr v2
         @ ('', '' @ repr_str ''site'' @ '': '') @ py_repr v3
         @ ('', '' @ repr_str ''stream_name'' @ '': '')
         @ py_repr (dict_get c1 ''stream_name'' (PStr ''prediction_visual''))
         @ ('', '' @ repr_str ''notifications'' @ '': '') @ py_repr v5
         @ ('', '' @ repr_str ''detect_with_server'' @ '': '') @ py_repr v6
         @ ''}''" by blast
  from compute_config_hash_Inr [OF h2] obtain w1 w2 w3 w5 w6 where
    w: "map_of c2 ''video_url'' = Some w1" "map_of c2 ''model_key'' = Some w2"
      "map_of c2 ''site'' = Some w3" "map_of c2 ''notifications'' = Some w5"
      "map_of c2 ''detect_with_server'' = Some w6"
    and hw: "h = (''{'' @ repr_str ''video_url'' @ '': '') @ py_repr w1
         @ ('', '' @ repr_str ''model_key'' @ '': '') @ py_repr w2
         @ ('', '' @ repr_str ''site'' @ '': '') @ py_repr w3
         @ ('', '' @ repr_str ''stream_name'' @ '': '')
         @ py_repr (dict_get c2 ''stream_name'' (PStr ''prediction_visual''))
         @ ('', '' @ repr_str ''notifications'' @ '': '') @ py_repr w5
         @ ('', '' @ repr_str ''detect_with_server'' @ '': '') @ py_repr w6
         @ ''}''" by blast
  from fingerprint_text_inj [OF hv [symmetric, unfolded hw]]
  have "v1 = w1 \<and> v2 = w2 \<and> v3 = w3
      \<and> dict_get c1 ''stream_name'' (PStr ''prediction_visual'')
          = dict_get c2 ''stream_name'' (PStr ''prediction_visual'')
      \<and> v5 = w5 \<and> v6 = w6" .
  with v w show ?thesis by (simp add: fingerprint_fields_def)
qed

lemma fingerprint_fields_update:
  "fingerprint_fields (AList.update ''expire_date'' v c) = fingerprint_fields c"
  by (simp add: fingerprint_fields_def dict_get_def update_conv')

text \<open>
  Claim C1, as the code has it. The fingerprint is determined by the six relevant entries
  and by nothing else: configurations with the same source URL, model selector, site,
  stream label (\<^verbatim>\<open>prediction_visual\<close> when absent), notification targets and
  detection-mode flag have the same fingerprint (or raise the same error), whatever their
  expiry dates; and two configurations that both have a fingerprint have the same one only
  if those six entries are equal, the notification targets being compared as the list of
  their entries in order.
\<close>

theorem config_fingerprint:
  "(fingerprint_fields c1 = fingerprint_fields c2 \<longrightarrow>
      compute_config_hash c1 = compute_config_hash c2)
   \<and> (compute_config_hash c1 = Inr h1 \<and> compute_config_hash c2 = Inr h2 \<longrightarrow>
        (h1 = h2 \<longleftrightarrow> fingerprint_fields c1 = fingerprint_fields c2))
   \<and> compute_config_hash (AList.update ''expire_date'' v c1) = compute_config_hash c1"
proof (intro conjI impI)
  assume "fingerprint_fields c1 = fingerprint_fields c2"
  then show "compute_config_hash c1 = compute_config_hash c2"
    by (rule compute_config_hash_fields)
next
  assume a: "compute_config_hash c1 = Inr h1 \<and> compute_config_hash c2 = Inr h2"
  show "h1 = h2 \<longleftrightarrow> fingerprint_fields c1 = fingerprint_fields c2"
  proof
    assume "h1 = h2"
    with a show "fingerprint_fields c1 = fingerprint_fields c2"
      using compute_config_hash_inj [of c1 h1 c2] by simp
  next
    assume "fingerprint_fields c1 = fingerprint_fields c2"
    from compute_config_hash_fields [OF this] a show "h1 = h2" by simp
  qed
next
  show "compute_config_hash (AList.update ''expire_date'' v c1) = compute_config_hash c1"
    by (rule compute_config_hash_fields) (rule fingerprint_fields_update)
qed

lemma compute_config_hash_ok:
  assumes "map_of c ''video_url'' \<noteq> None" "map_of c ''model_key'' \<noteq> None"
    "map_of c ''site'' \<noteq> None" "map_of c ''notifications'' \<noteq> None"
    "map_of c ''detect_with_server'' \<noteq> None"
  shows "\<exists>h. compute_config_hash c = Inr h"
  using assms by (auto simp add: compute_config_hash_def Let_def)

theorem config_fingerprint_witness:
  "compute_config_hash (AList.update ''expire_date'' (PStr ''2030-01-01'') demo_config)
     = compute_config_hash demo_config
   \<and> fingerprint_fields shared_key_config \<noteq> fingerprint_fields demo_config
   \<and> compute_config_hash shared_key_config \<noteq> compute_config_hash demo_config"
proof -
  obtain h1 where h1: "compute_config_hash shared_key_config = Inr h1"
    using compute_config_hash_ok [of shared_key_config] by (auto simp add: shared_key_config_def)
  obtain h2 where h2: "compute_config_hash demo_config = Inr h2"
    using compute_config_hash_ok [of demo_config] by (auto simp add: demo_config_def)
  have ne: "fingerprint_fields shared_key_config \<noteq> fingerprint_fields demo_config"
    by (simp add: fingerprint_fields_def shared_key_config_def demo_config_def)
  have eq: "fingerprint_fields (AList.update ''expire_date'' (PStr ''2030-01-01'') demo_config)
      = fingerprint_fields demo_config"
    by (rule fingerprint_fields_update)
  from config_fingerprint [of "AList.update ''expire_date'' (PStr ''2030-01-01'') demo_config"
      demo_config] eq
  have a: "compute_config_hash (AList.update ''expire_date'' (PStr ''2030-01-01'') demo_config)
     = compute_config_hash demo_config" by blast
  from config_fingerprint [of shared_key_config demo_config h1 h2] h1 h2 ne
  have "h1 \<noteq> h2" by blast
  with h1 h2 a ne show ?thesis by simp
qed

text \<open>
  The order of the notification entries is part of the fingerprint: two configurations
  whose notification targets are the same mapping from tokens to languages, written in a
  different order, and which agree on everything else, have different fingerprints.
\<close>

theorem config_fingerprint_counterexample:
  "map_of [(''a'', ''en''), (''b'', ''zh-TW'')] = map_of [(''b'', ''zh-TW''), (''a'', ''en'')]
   \<and> map_of notify_ab_config ''video_url'' = map_of notify_ba_config ''video_url''
   \<and> map_of notify_ab_config ''model_key'' = map_of notify_ba_config ''model_key''
   \<and> map_of notify_ab_config ''site'' = map_of notify_ba_config ''site''
   \<and> map_of notify_ab_config ''stream_name'' = map_of notify_ba_config ''stream_name''
   \<and> map_of notify_ab_config ''detect_with_server'' = map_of notify_ba_config ''detect_with_server''
   \<and> map_of notify_ab_config ''expire_date'' = map_of notify_ba_config ''expire_date''
   \<and> map_of notify_ab_config ''notifications'' = Some (PDict [(''a'', ''en''), (''b'', ''zh-TW'')])
   \<and> map_of notify_ba_config ''notifications'' = Some (PDict [(''b'', ''zh-TW''), (''a'', ''en'')])
   \<and> compute_config_hash notify_ab_config \<noteq> compute_config_hash notify_ba_config"
proof -
  have m: "map_of [(''a'', ''en''), (''b'', ''zh-TW'')] = map_of [(''b'', ''zh-TW''), (''a'', ''en'')]"
    by (rule ext) simp
  have o: "map_of notify_ab_config ''video_url'' = map_of notify_ba_config ''video_url''"
    "map_of notify_ab_config ''model_key'' = map_of notify_ba_config ''model_key''"
    "map_of notify_ab_config ''site'' = map_of notify_ba_config ''site''"
    "map_of notify_ab_config ''stream_name'' = map_of notify_ba_config ''stream_name''"
    "map_of notify_ab_config ''detect_with_server'' = map_of notify_ba_config ''detect_with_server''"
    "map_of notify_ab_config ''expire_date'' = map_of notify_ba_config ''expire_date''"
    by (simp_all add: notify_ab_config_def notify_ba_config_def)
  have n: "map_of notify_ab_config ''notifications'' = Some (PDict [(''a'', ''en''), (''b'', ''zh-TW'')])"
    "map_of notify_ba_config ''notifications'' = Some (PDict [(''b'', ''zh-TW''), (''a'', ''en'')])"
    by (simp_all add: notify_ab_config_def notify_ba_config_def)
  obtain h1 where h1: "compute_config_hash notify_ab_config = Inr h1"
    using compute_config_hash_ok [of notify_ab_config] by (auto simp add: notify_ab_config_def)
  have "compute_config_hash notify_ba_config \<noteq> Inr h1"
  proof
    assume "compute_config_hash notify_ba_config = Inr h1"
    from compute_config_hash_inj [OF h1 this]
    have "map_of notify_ab_config ''notifications'' = map_of notify_ba_config ''notifications''"
      by (simp add: fingerprint_fields_def)
    with n show False by simp
  qed
  with h1 m o n show ?thesis by simp
qed

end
